theory Spec2Isabelle
  imports Main "HOL-Library.Sublist"
begin

section \<open>Documents\<close>

text \<open>
  The scripts work on the values that \<^verbatim>\<open>json.load\<close> returns: \<^verbatim>\<open>None\<close>, booleans, integers,
  strings, lists and dictionaries with string keys. A dictionary is an association list in
  insertion order; a Python dictionary never holds a key twice, which \<open>wf_json\<close> states.
  AlphaFold input documents carry integers only, so the model has no floating-point values.
  Strings are lists of 8-bit characters; the model is of the scripts on ASCII text.
\<close>

datatype json =
    JNull
  | JBool bool
  | JInt int
  | JStr string
  | JList "json list"
  | JDict "(string \<times> json) list"

datatype py_error = ValueError | KeyError | TypeError | AttributeError | JSONDecodeError

lemma size_json_list_mem: "x \<in> set xs \<Longrightarrow> size x < size (JList xs)"
  by (induction xs) auto

lemma size_json_dict_mem: "(k, v) \<in> set kvs \<Longrightarrow> size v < size (JDict kvs)"
  by (induction kvs) auto

lemma size_json_map_of: "map_of kvs k = Some v \<Longrightarrow> size v < size (JDict kvs)"
  by (auto dest: map_of_SomeD simp: size_json_dict_mem simp del: json.size)

fun wf_json :: "json \<Rightarrow> bool" where
  "wf_json (JDict kvs) = (distinct (map fst kvs) \<and> list_all (\<lambda>(k, v). wf_json v) kvs)"
| "wf_json (JList xs) = list_all wf_json xs"
| "wf_json _ = True"

fun is_dict :: "json \<Rightarrow> bool" where
  "is_dict (JDict _) = True"
| "is_dict _ = False"

fun is_list :: "json \<Rightarrow> bool" where
  "is_list (JList _) = True"
| "is_list _ = False"

text \<open>\<^verbatim>\<open>isinstance(x, dict) and k in x\<close>\<close>

fun has_key :: "string \<Rightarrow> json \<Rightarrow> bool" where
  "has_key k (JDict kvs) = (k \<in> set (map fst kvs))"
| "has_key k _ = False"

text \<open>\<^verbatim>\<open>x.get(k)\<close> on a dictionary\<close>

fun dict_get :: "json \<Rightarrow> string \<Rightarrow> json option" where
  "dict_get (JDict kvs) k = map_of kvs k"
| "dict_get _ k = None"

subsection \<open>Strings\<close>

text \<open>\<^verbatim>\<open>str.lower\<close> and \<^verbatim>\<open>str.startswith\<close>, on ASCII.\<close>

definition lower_char :: "char \<Rightarrow> char" where
  "lower_char c =
     (case map_of (zip ''ABCDEFGHIJKLMNOPQRSTUVWXYZ'' ''abcdefghijklmnopqrstuvwxyz'') c of
        Some l \<Rightarrow> l
      | None \<Rightarrow> c)"

definition lower :: "string \<Rightarrow> string" where
  "lower s = map lower_char s"

definition startswith :: "string \<Rightarrow> string \<Rightarrow> bool" where
  "startswith s p = (take (length p) s = p)"

text \<open>\<^verbatim>\<open>p in s\<close> for two strings\<close>

fun str_contains :: "string \<Rightarrow> string \<Rightarrow> bool" where
  "str_contains p [] = (p = [])"
| "str_contains p (c # cs) = (startswith (c # cs) p \<or> str_contains p cs)"

definition digit_char :: "nat \<Rightarrow> char" where
  "digit_char n = ''0123456789'' ! (n mod 10)"

text \<open>\<^verbatim>\<open>str(n)\<close> for a natural number\<close>

fun str_nat :: "nat \<Rightarrow> string" where
  "str_nat n = (if n < 10 then [digit_char n] else str_nat (n div 10) @ [digit_char n])"

declare str_nat.simps [simp del]

section \<open>The single-chain extraction tools\<close>

text \<open>
  \<^verbatim>\<open>tools/msa_batch_extract_chain1.py\<close> and \<^verbatim>\<open>tools/msa_extract_chain1.py\<close> share their
  helper functions word for word, up to two differences that the parameter \<open>script\<close> selects:
  the hint keys of \<open>looks_chain_like_element\<close>, and one more test in the \<^verbatim>\<open>seq\<close> case of
  \<open>prune_chain_dimension\<close>.
\<close>

datatype script = Batch | Single

subsection \<open>Paired-alignment keys\<close>

definition PAIR_CONTAINER_KEYS :: "string list" where
  "PAIR_CONTAINER_KEYS = [''paired_msa'', ''paired_msas'', ''complex_msa'', ''interaction_msa'']"

definition DROP_EXACT_KEYS :: "string list" where
  "DROP_EXACT_KEYS = ''pairedMsa'' # PAIR_CONTAINER_KEYS"

text \<open>The test \<^verbatim>\<open>k in DROP_EXACT_KEYS or k.lower().startswith("paired")\<close>, which
  \<open>strip_paired_blocks\<close>, \<open>prune_chain_dimension\<close> and \<open>has_paired\<close> all make.\<close>

definition is_paired_key :: "string \<Rightarrow> bool" where
  "is_paired_key k = (k \<in> set DROP_EXACT_KEYS \<or> startswith (lower k) ''paired'')"

fun strip_paired_blocks :: "json \<Rightarrow> json" where
  "strip_paired_blocks (JDict kvs) =
     JDict (map (\<lambda>(k, v). (k, strip_paired_blocks v)) (filter (\<lambda>(k, v). \<not> is_paired_key k) kvs))"
| "strip_paired_blocks (JList xs) = JList (map strip_paired_blocks xs)"
| "strip_paired_blocks d = d"

text \<open>The local function \<open>has_paired\<close> of \<open>output_is_complete\<close>.\<close>

fun has_paired :: "json \<Rightarrow> bool" where
  "has_paired (JDict kvs) = list_ex (\<lambda>(k, v). is_paired_key k \<or> has_paired v) kvs"
| "has_paired (JList xs) = list_ex has_paired xs"
| "has_paired _ = False"

text \<open>Every key of every mapping of a document, outermost first.\<close>

fun all_mapping_keys :: "json \<Rightarrow> string list" where
  "all_mapping_keys (JDict kvs) = concat (map (\<lambda>(k, v). k # all_mapping_keys v) kvs)"
| "all_mapping_keys (JList xs) = concat (map all_mapping_keys xs)"
| "all_mapping_keys _ = []"

subsection \<open>Chain-like lists\<close>

definition hints :: "script \<Rightarrow> string list" where
  "hints sc = [''msa'', ''templates'', ''sequence'', ''seq'', ''chain_id'', ''alignments'']
              @ (case sc of Batch \<Rightarrow> [''unpairedMsa'', ''pairedMsa''] | Single \<Rightarrow> [])"

definition looks_chain_like_element :: "script \<Rightarrow> json \<Rightarrow> bool" where
  "looks_chain_like_element sc x =
     (case x of JDict kvs \<Rightarrow> list_ex (\<lambda>k. k \<in> set (hints sc)) (map fst kvs) | _ \<Rightarrow> False)"

definition is_chain_like_list :: "script \<Rightarrow> json list \<Rightarrow> bool" where
  "is_chain_like_list sc lst =
     (if length lst < 2 then False
      else let dicts = filter is_dict lst in
        if length dicts < max 2 (length lst div 2) then False
        else list_ex (looks_chain_like_element sc) dicts)"

subsection \<open>PruneEngine\<close>

definition chain_keys :: "string list" where
  "chain_keys = [''A'', ''B'']"

text \<open>
  The first block of the dictionary case: the key whose value replaces the whole mapping, if
  the test \<^verbatim>\<open>key_keep in obj\<close> is reached and succeeds. \<open>keep_index\<close> is 0 or 1, the
  only values \<open>choose_chain_index_by_sequence\<close> returns.
\<close>

definition key_keep_of :: "string list \<Rightarrow> nat \<Rightarrow> string option" where
  "key_keep_of keys keep_index =
     (let ab = (set chain_keys \<subseteq> set keys);
          one_two = ({''1'', ''2''} \<subseteq> set keys \<or> {''chain_1'', ''chain_2''} \<subseteq> set keys)
      in if ab \<or> one_two then
           (let key_keep = (if ab then chain_keys ! keep_index
                            else if keep_index = 0 then ''1'' else ''2'');
                key_keep = (if one_two \<and> (''chain_1'' \<in> set keys \<or> ''chain_2'' \<in> set keys)
                            then (if keep_index = 0 then ''chain_1'' else ''chain_2'')
                            else key_keep)
            in if key_keep \<in> set keys then Some key_keep else None)
         else None)"

definition chain_target :: "(string \<times> json) list \<Rightarrow> nat \<Rightarrow> json option" where
  "chain_target obj keep_index =
     (case key_keep_of (map fst obj) keep_index of
        None \<Rightarrow> None
      | Some key_keep \<Rightarrow> map_of obj key_keep)"

text \<open>\<^verbatim>\<open>isinstance(x, (str, dict, list))\<close>\<close>

fun is_str_dict_list :: "json \<Rightarrow> bool" where
  "is_str_dict_list (JStr _) = True"
| "is_str_dict_list (JDict _) = True"
| "is_str_dict_list (JList _) = True"
| "is_str_dict_list _ = False"

text \<open>The candidate test of the \<^verbatim>\<open>seq\<close> case:
  \<^verbatim>\<open>cand in v\<close> in the batch script, \<^verbatim>\<open>cand in v and isinstance(v[cand], (str, dict, list))\<close>
  in the single-job script.\<close>

definition seq_cand :: "script \<Rightarrow> (string \<times> json) list \<Rightarrow> string \<Rightarrow> json option" where
  "seq_cand sc vd cand =
     (case map_of vd cand of
        None \<Rightarrow> None
      | Some w \<Rightarrow> (if sc = Batch \<or> is_str_dict_list w then Some w else None))"

text \<open>
  The value that the loop over \<^verbatim>\<open>obj.items()\<close> hands to the recursive call for the item
  \<open>(k, v)\<close>: \<^verbatim>\<open>v[cand]\<close> for the first candidate found when \<open>k\<close> is \<^verbatim>\<open>seq\<close> and \<open>v\<close> is a
  mapping, and \<open>v\<close> itself otherwise.
\<close>

definition seq_target :: "script \<Rightarrow> string \<Rightarrow> json \<Rightarrow> nat \<Rightarrow> json" where
  "seq_target sc k v keep_index =
     (case v of
        JDict vd \<Rightarrow>
          (if k = ''seq'' then
             (case seq_cand sc vd (chain_keys ! keep_index) of
                Some w \<Rightarrow> w
              | None \<Rightarrow>
                 (case seq_cand sc vd (str_nat (keep_index + 1)) of
                    Some w \<Rightarrow> w
                  | None \<Rightarrow> v))
           else v)
      | _ \<Rightarrow> v)"

text \<open>The test that opens the list case.\<close>

definition is_sequences_list :: "json list \<Rightarrow> bool" where
  "is_sequences_list obj =
     (obj \<noteq> [] \<and> list_all is_dict obj
      \<and> list_ex (\<lambda>x. has_key ''protein'' x \<or> has_key ''ligand'' x) obj)"

text \<open>The elements that the loop over a sequences list appends, before they are pruned.\<close>

fun select_entries :: "nat \<Rightarrow> nat \<Rightarrow> json list \<Rightarrow> json list" where
  "select_entries keep_index prot_seen [] = []"
| "select_entries keep_index prot_seen (el # els) =
     (if has_key ''ligand'' el then el # select_entries keep_index prot_seen els
      else if has_key ''protein'' el then
        (if prot_seen = keep_index then el # select_entries keep_index (prot_seen + 1) els
         else select_entries keep_index (prot_seen + 1) els)
      else select_entries keep_index prot_seen els)"

lemma set_select_entries: "set (select_entries i n xs) \<subseteq> set xs"
  by (induction xs arbitrary: n) auto

lemma size_chain_target: "chain_target obj i = Some sub \<Longrightarrow> size sub < size (JDict obj)"
  unfolding chain_target_def
  by (auto split: option.splits dest!: size_json_map_of simp del: json.size)

lemma size_seq_target: "size (seq_target sc k v i) \<le> size v"
  unfolding seq_target_def seq_cand_def
  by (auto split: json.splits option.splits if_splits dest!: size_json_map_of
           simp del: json.size intro: less_imp_le)

function prune_chain_dimension :: "script \<Rightarrow> json \<Rightarrow> nat \<Rightarrow> json" where
  "prune_chain_dimension sc (JDict obj) keep_index =
     (case chain_target obj keep_index of
        Some sub \<Rightarrow> prune_chain_dimension sc sub keep_index
      | None \<Rightarrow>
          JDict (map (\<lambda>(k, v). (k, prune_chain_dimension sc (seq_target sc k v keep_index) keep_index))
                 (filter (\<lambda>(k, v). \<not> is_paired_key k) obj)))"
| "prune_chain_dimension sc (JList obj) keep_index =
     (if is_sequences_list obj then
        JList (map (\<lambda>el. prune_chain_dimension sc el keep_index) (select_entries keep_index 0 obj))
      else if is_chain_like_list sc obj \<and> length obj > keep_index then
        prune_chain_dimension sc (obj ! keep_index) keep_index
      else JList (map (\<lambda>x. prune_chain_dimension sc x keep_index) obj))"
| "prune_chain_dimension sc JNull keep_index = JNull"
| "prune_chain_dimension sc (JBool b) keep_index = JBool b"
| "prune_chain_dimension sc (JInt n) keep_index = JInt n"
| "prune_chain_dimension sc (JStr s) keep_index = JStr s"
  by pat_completeness auto
termination
proof (relation "measure (\<lambda>(sc, d, i). size d)", goal_cases)
  case (2 sc obj keep_index x k v)
  then have "(k, v) \<in> set obj" by auto
  then have "size v < size (JDict obj)" by (rule size_json_dict_mem)
  then show ?case using size_seq_target [of sc k v keep_index] by simp
next
  case (3 sc obj keep_index sub)
  then show ?case by (simp add: size_chain_target del: json.size)
next
  case (4 sc obj keep_index x)
  then have "x \<in> set obj" using set_select_entries by blast
  then show ?case using size_json_list_mem by simp
next
  case (5 sc obj keep_index)
  then show ?case using size_json_list_mem [of "obj ! keep_index" obj] by simp
next
  case (6 sc obj keep_index x)
  then show ?case using size_json_list_mem by simp
qed simp

subsection \<open>ChainSelector\<close>

definition is_aa_seq :: "string \<Rightarrow> bool" where
  "is_aa_seq s = ((s \<noteq> [] \<and> list_all (\<lambda>c. c \<in> set ''ACDEFGHIKLMNPQRSTVWY'') s) \<and> length s \<ge> 30)"

text \<open>The local function \<open>visit\<close> of \<open>find_first_sequence\<close>, with \<open>best\<close> passed along.\<close>

fun visit :: "json \<Rightarrow> string option \<Rightarrow> string option" where
  "visit (JDict kvs) best = fold (\<lambda>(k, v) b. visit v b) kvs best"
| "visit (JList xs) best = fold (\<lambda>v b. visit v b) xs best"
| "visit (JStr x) best =
     (if is_aa_seq x \<and> (case best of None \<Rightarrow> True | Some b \<Rightarrow> length x > length b) then Some x else best)"
| "visit _ best = best"

definition find_first_sequence :: "json \<Rightarrow> string option" where
  "find_first_sequence obj = visit obj None"

text \<open>The local function \<open>scan\<close>: the chain-like lists in document order; a chain-like list
  is not searched further.\<close>

fun scan :: "script \<Rightarrow> json \<Rightarrow> json list list" where
  "scan sc (JDict kvs) = concat (map (\<lambda>(k, vv). scan sc vv) kvs)"
| "scan sc (JList xs) = (if is_chain_like_list sc xs then [xs] else concat (map (scan sc) xs))"
| "scan sc _ = []"

definition top_candidates :: "script \<Rightarrow> json \<Rightarrow> json list list" where
  "top_candidates sc donor =
     concat (map (\<lambda>k. case dict_get donor k of
                         Some (JList v) \<Rightarrow> (if is_chain_like_list sc v then [v] else [])
                       | _ \<Rightarrow> [])
                 [''chains'', ''sequences'', ''entities'', ''monomers'', ''inputs'', ''targets''])"

definition candidates :: "script \<Rightarrow> json \<Rightarrow> json list list" where
  "candidates sc donor =
     (let c = top_candidates sc donor in if c = [] then scan sc donor else c)"

definition seq_from_elem :: "json \<Rightarrow> string option" where
  "seq_from_elem e =
     (case List.find (\<lambda>key. case dict_get e key of Some (JStr s) \<Rightarrow> is_aa_seq s | _ \<Rightarrow> False)
                     [''sequence'', ''seq'', ''query_sequence'', ''target_sequence''] of
        None \<Rightarrow> None
      | Some key \<Rightarrow> (case dict_get e key of Some (JStr s) \<Rightarrow> Some s | _ \<Rightarrow> None))"

text \<open>\<^verbatim>\<open>sum(1 for a,b in zip(s[:n],dest_seq[:n]) if a==b)\<close>\<close>

definition matches :: "string \<Rightarrow> string \<Rightarrow> nat" where
  "matches s dest_seq =
     (let n = min (length s) (length dest_seq)
      in length (filter (\<lambda>(a, b). a = b) (zip (take n s) (take n dest_seq))))"

text \<open>The score \<open>sc\<close> that the loop body gives one element. \<^verbatim>\<open>int(100*m/max(1,n))\<close> is
  the integer quotient: the float quotient is exact to well below \<open>1/n\<close> for any length that
  fits in memory.\<close>

definition chain_score :: "string \<Rightarrow> json \<Rightarrow> int" where
  "chain_score dest_seq e =
     (case seq_from_elem e of
        None \<Rightarrow> 0
      | Some s \<Rightarrow>
          (if s = [] then 0
           else if str_contains dest_seq s \<or> str_contains s dest_seq then 3
           else let n = min (length s) (length dest_seq)
                in if n = 0 then 0 else int ((100 * matches s dest_seq) div max 1 n)))"

text \<open>One step of the two nested loops: the pair \<open>(best_idx, best_sc)\<close> after the element at
  \<open>idx\<close>.\<close>

definition score_step :: "string \<Rightarrow> json list \<Rightarrow> nat \<Rightarrow> nat \<times> int \<Rightarrow> nat \<times> int" where
  "score_step dest_seq lst idx best =
     (let sc = chain_score dest_seq (lst ! idx)
      in if sc > snd best then (idx, sc) else best)"

definition choose_chain_index_by_sequence :: "script \<Rightarrow> json \<Rightarrow> string option \<Rightarrow> nat" where
  "choose_chain_index_by_sequence sc donor dest_seq =
     (case dest_seq of
        None \<Rightarrow> 0
      | Some ds \<Rightarrow>
          (if ds = [] then 0
           else fst (fold (\<lambda>lst best. fold (score_step ds lst) [0 ..< min 2 (length lst)] best)
                          (candidates sc donor) (0, -1))))"



subsection \<open>Fixed points of the PruneEngine\<close>

text \<open>A document in which \<open>prune_chain_dimension\<close> finds nothing to remove or to collapse.\<close>

fun reduced :: "script \<Rightarrow> nat \<Rightarrow> json \<Rightarrow> bool" where
  "reduced sc i (JDict obj) =
     (chain_target obj i = None
      \<and> list_all (\<lambda>(k, v). \<not> is_paired_key k \<and> seq_target sc k v i = v \<and> reduced sc i v) obj)"
| "reduced sc i (JList xs) =
     ((if is_sequences_list xs then select_entries i 0 xs = xs
       else \<not> (is_chain_like_list sc xs \<and> i < length xs))
      \<and> list_all (reduced sc i) xs)"
| "reduced sc i _ = True"


section \<open>The batch re-use script\<close>

subsection \<open>KeyDeriver\<close>

text \<open>\<^verbatim>\<open>s.split(c, 1)\<close>: the two parts around the first \<open>c\<close>, or nothing when \<open>c\<close> does not
  occur and the list has one element.\<close>

definition split_first :: "char \<Rightarrow> string \<Rightarrow> (string \<times> string) option" where
  "split_first c s =
     (if c \<in> set s then Some (takeWhile (\<lambda>x. x \<noteq> c) s, tl (dropWhile (\<lambda>x. x \<noteq> c) s))
      else None)"

text \<open>
  \<open>parse_entries\<close>. Unpacking the one-element list raises \<^verbatim>\<open>ValueError\<close>. The lazy run
  \<^verbatim>\<open>[^_]*?\<close> cannot pass an underscore, so \<^verbatim>\<open>([^_]*?_noM)\<close> matches just when the marker
  stands at the first underscore; \<^verbatim>\<open>([^_-]+)\<close> is the leading run without underscore and
  hyphen, not empty. \<^verbatim>\<open>.group\<close> of a failed match raises \<^verbatim>\<open>AttributeError\<close>.
\<close>

definition parse_entries :: "string \<Rightarrow> py_error + (string \<times> string)" where
  "parse_entries job =
     (case split_first CHR ''-'' job of
        None \<Rightarrow> Inl ValueError
      | Some (e1, rest) \<Rightarrow>
          (if str_contains ''_noM'' rest then
             (let pre = takeWhile (\<lambda>c. c \<noteq> CHR ''_'') rest
              in if startswith (drop (length pre) rest) ''_noM''
                 then Inr (e1, pre @ ''_noM'') else Inl AttributeError)
           else
             (let e2 = takeWhile (\<lambda>c. c \<noteq> CHR ''_'' \<and> c \<noteq> CHR ''-'') rest
              in if e2 = [] then Inl AttributeError else Inr (e1, e2))))"

definition is_digit :: "char \<Rightarrow> bool" where
  "is_digit c = (c \<in> set ''0123456789'')"

text \<open>\<^verbatim>\<open>re.sub(r'_[KHQ]\d.*', '', s)\<close>: every match runs from an underscore, a class letter and
  a digit to the end of its line, and the search goes on behind it.\<close>

function re_sub_ptm :: "string \<Rightarrow> string" where
  "re_sub_ptm (a # b # c # rest) =
     (if a = CHR ''_'' \<and> b \<in> set ''KHQ'' \<and> is_digit c
      then re_sub_ptm (dropWhile (\<lambda>x. x \<noteq> CHR 0x0A) rest)
      else a # re_sub_ptm (b # c # rest))"
| "re_sub_ptm [a, b] = [a, b]"
| "re_sub_ptm [a] = [a]"
| "re_sub_ptm [] = []"
  by pat_completeness auto
termination
  by (relation "measure length") (auto simp: le_imp_less_Suc length_dropWhile_le less_SucI)

definition base_key :: "string \<Rightarrow> string \<Rightarrow> string" where
  "base_key entry1 entry2 = entry1 @ ''-'' @ re_sub_ptm entry2"

subsection \<open>Python operations on documents\<close>

text \<open>\<^verbatim>\<open>for e in x\<close>: a list gives its elements, a dictionary its keys, a string its
  characters; nothing else can be iterated.\<close>

fun py_iter :: "json \<Rightarrow> py_error + json list" where
  "py_iter (JList xs) = Inr xs"
| "py_iter (JDict kvs) = Inr (map (\<lambda>(k, v). JStr k) kvs)"
| "py_iter (JStr s) = Inr (map (\<lambda>c. JStr [c]) s)"
| "py_iter _ = Inl TypeError"

text \<open>\<^verbatim>\<open>k in x\<close> for a string \<open>k\<close>: a key of a dictionary, an element of a list, a substring of
  a string.\<close>

fun py_in :: "string \<Rightarrow> json \<Rightarrow> py_error + bool" where
  "py_in k (JDict kvs) = Inr (k \<in> set (map fst kvs))"
| "py_in k (JList xs) = Inr (JStr k \<in> set xs)"
| "py_in k (JStr s) = Inr (str_contains k s)"
| "py_in k _ = Inl TypeError"

text \<open>\<^verbatim>\<open>x[k]\<close> for a string \<open>k\<close>\<close>

fun py_getitem :: "json \<Rightarrow> string \<Rightarrow> py_error + json" where
  "py_getitem (JDict kvs) k = (case map_of kvs k of None \<Rightarrow> Inl KeyError | Some v \<Rightarrow> Inr v)"
| "py_getitem _ k = Inl TypeError"

text \<open>\<^verbatim>\<open>d[k] = v\<close>: an old key keeps its place, a new key goes to the end.\<close>

fun dict_set :: "(string \<times> json) list \<Rightarrow> string \<Rightarrow> json \<Rightarrow> (string \<times> json) list" where
  "dict_set [] k v = [(k, v)]"
| "dict_set ((k', v') # kvs) k v = (if k' = k then (k, v) # kvs else (k', v') # dict_set kvs k v)"

fun py_num :: "json \<Rightarrow> int option" where
  "py_num (JInt n) = Some n"
| "py_num (JBool b) = Some (if b then 1 else 0)"
| "py_num _ = None"

text \<open>\<^verbatim>\<open>a == b\<close>: \<^verbatim>\<open>True\<close> and \<^verbatim>\<open>False\<close> are the integers 1 and 0, lists are equal
  element by element, dictionaries are equal when they map the same keys to equal values,
  in any order.\<close>

function py_eq :: "json \<Rightarrow> json \<Rightarrow> bool" where
  "py_eq (JList xs) b =
     (case b of JList ys \<Rightarrow> length xs = length ys \<and> list_all (\<lambda>(x, y). py_eq x y) (zip xs ys)
              | _ \<Rightarrow> False)"
| "py_eq (JDict kvs) b =
     (case b of
        JDict kvs' \<Rightarrow>
          length kvs = length kvs'
          \<and> list_all (\<lambda>(k, v). case map_of kvs' k of None \<Rightarrow> False | Some w \<Rightarrow> py_eq v w) kvs
      | _ \<Rightarrow> False)"
| "py_eq (JStr s) b = (b = JStr s)"
| "py_eq JNull b = (b = JNull)"
| "py_eq (JInt n) b = (py_num b = Some n)"
| "py_eq (JBool c) b = (py_num b = Some (if c then 1 else 0))"
  by pat_completeness auto
termination
proof (relation "measure (\<lambda>(a, b). size a)", goal_cases)
  case (2 xs b ys z x y)
  then have "x \<in> set xs" by (auto dest: set_zip_leftD)
  then show ?case using size_json_list_mem by simp
next
  case (3 kvs b kvs' z k v w)
  then have "(k, v) \<in> set kvs" by auto
  then show ?case using size_json_dict_mem [of k v kvs] by simp
qed simp

fun str_gt :: "string \<Rightarrow> string \<Rightarrow> bool" where
  "str_gt [] b = False"
| "str_gt (x # xs) [] = True"
| "str_gt (x # xs) (y # ys) = (if x = y then str_gt xs ys else (of_char x :: nat) > of_char y)"

text \<open>\<^verbatim>\<open>a > b\<close>: numbers by value, strings and lists lexicographically, a list at the first
  pair of unequal elements; every other pair of types raises \<^verbatim>\<open>TypeError\<close>.\<close>

fun py_gt :: "json \<Rightarrow> json \<Rightarrow> py_error + bool"
  and py_gt_list :: "json list \<Rightarrow> json list \<Rightarrow> py_error + bool" where
  "py_gt (JStr a) b = (case b of JStr s \<Rightarrow> Inr (str_gt a s) | _ \<Rightarrow> Inl TypeError)"
| "py_gt (JList xs) b = (case b of JList ys \<Rightarrow> py_gt_list xs ys | _ \<Rightarrow> Inl TypeError)"
| "py_gt (JInt m) b = (case py_num b of Some n \<Rightarrow> Inr (m > n) | None \<Rightarrow> Inl TypeError)"
| "py_gt (JBool c) b = (case py_num b of Some n \<Rightarrow> Inr ((if c then 1 else 0) > n) | None \<Rightarrow> Inl TypeError)"
| "py_gt JNull b = Inl TypeError"
| "py_gt (JDict kvs) b = Inl TypeError"
| "py_gt_list [] ys = Inr False"
| "py_gt_list (x # xs) [] = Inr True"
| "py_gt_list (x # xs) (y # ys) = (if py_eq x y then py_gt_list xs ys else py_gt x y)"

text \<open>\<^verbatim>\<open>max(a, b)\<close> keeps \<open>a\<close> unless \<^verbatim>\<open>b > a\<close>.\<close>

definition py_max :: "json \<Rightarrow> json \<Rightarrow> py_error + json" where
  "py_max a b = (case py_gt b a of Inl e \<Rightarrow> Inl e | Inr g \<Rightarrow> Inr (if g then b else a))"

text \<open>Lists and dictionaries cannot be dictionary keys.\<close>

fun hashable :: "json \<Rightarrow> bool" where
  "hashable (JList _) = False"
| "hashable (JDict _) = False"
| "hashable _ = True"

text \<open>A dictionary whose keys are document values, as \<open>chain_map\<close> builds it.\<close>

fun key_get :: "(json \<times> json) list \<Rightarrow> json \<Rightarrow> json option" where
  "key_get [] k = None"
| "key_get ((k', v') # m) k = (if py_eq k' k then Some v' else key_get m k)"

fun key_put :: "(json \<times> json) list \<Rightarrow> json \<Rightarrow> json \<Rightarrow> (json \<times> json) list" where
  "key_put [] k v = [(k, v)]"
| "key_put ((k', v') # m) k v = (if py_eq k' k then (k', v) # m else (k', v') # key_put m k v)"

subsection \<open>MergeEngine\<close>

definition CORE_KEYS :: "string list" where
  "CORE_KEYS = [''id'', ''sequence'', ''modifications'']"

text \<open>The dictionary comprehension of \<open>chain_map\<close>, one element at a time.\<close>

fun chain_map_loop :: "json list \<Rightarrow> (json \<times> json) list \<Rightarrow> py_error + (json \<times> json) list" where
  "chain_map_loop [] acc = Inr acc"
| "chain_map_loop (e # es) acc =
     (case py_in ''protein'' e of
        Inl err \<Rightarrow> Inl err
      | Inr False \<Rightarrow> chain_map_loop es acc
      | Inr True \<Rightarrow>
          (case py_getitem e ''protein'' of
             Inl err \<Rightarrow> Inl err
           | Inr p \<Rightarrow>
               (case py_getitem p ''id'' of
                  Inl err \<Rightarrow> Inl err
                | Inr cid \<Rightarrow>
                    (if hashable cid then chain_map_loop es (key_put acc cid p)
                     else Inl TypeError))))"

definition chain_map :: "json \<Rightarrow> py_error + (json \<times> json) list" where
  "chain_map seq = (case py_iter seq of Inl err \<Rightarrow> Inl err | Inr es \<Rightarrow> chain_map_loop es [])"

text \<open>The inner loop \<^verbatim>\<open>for k,v in sc[cid].items(): if k not in CORE_KEYS: ent["protein"][k]=v\<close>,
  on the fields of the destination protein.\<close>

definition copy_fields :: "(string \<times> json) list \<Rightarrow> (string \<times> json) list \<Rightarrow> (string \<times> json) list" where
  "copy_fields donor_fields protein =
     fold (\<lambda>(k, v) p. if k \<notin> set CORE_KEYS then dict_set p k v else p) donor_fields protein"

text \<open>The body of the loop over \<^verbatim>\<open>d["sequences"]\<close>: the entry after the body has run.\<close>

definition merge_entry :: "(json \<times> json) list \<Rightarrow> json \<Rightarrow> py_error + json" where
  "merge_entry sc ent =
     (case py_in ''protein'' ent of
        Inl err \<Rightarrow> Inl err
      | Inr False \<Rightarrow> Inr ent
      | Inr True \<Rightarrow>
          (case py_getitem ent ''protein'' of
             Inl err \<Rightarrow> Inl err
           | Inr p \<Rightarrow>
               (case py_getitem p ''id'' of
                  Inl err \<Rightarrow> Inl err
                | Inr cid \<Rightarrow>
                    (if \<not> hashable cid then Inl TypeError
                     else case key_get sc cid of
                        None \<Rightarrow> Inl KeyError
                      | Some donor_protein \<Rightarrow>
                          (case (donor_protein, p, ent) of
                             (JDict donor_fields, JDict protein, JDict entry) \<Rightarrow>
                                Inr (JDict (dict_set entry ''protein''
                                              (JDict (copy_fields donor_fields protein))))
                           | _ \<Rightarrow> Inl AttributeError)))))"

fun merge_entries :: "(json \<times> json) list \<Rightarrow> json list \<Rightarrow> py_error + json list" where
  "merge_entries sc [] = Inr []"
| "merge_entries sc (ent # ents) =
     (case merge_entry sc ent of
        Inl err \<Rightarrow> Inl err
      | Inr ent' \<Rightarrow> (case merge_entries sc ents of Inl err \<Rightarrow> Inl err | Inr ents' \<Rightarrow> Inr (ent' # ents')))"

text \<open>\<^verbatim>\<open>d.get("version", 1)\<close>\<close>

definition get_version :: "(string \<times> json) list \<Rightarrow> json" where
  "get_version kvs = (case map_of kvs ''version'' of None \<Rightarrow> JInt 1 | Some v \<Rightarrow> v)"

text \<open>
  \<open>merge_json\<close> on the two parsed documents, up to the dictionary \<open>d\<close> that it serialises.
  The entries of a list \<^verbatim>\<open>d["sequences"]\<close> are updated in place; the keys of a dictionary
  or the characters of a string, which the loop would iterate instead, cannot be.
\<close>

definition merge_doc :: "json \<Rightarrow> json \<Rightarrow> py_error + json" where
  "merge_doc s d =
     (case py_getitem s ''sequences'' of Inl err \<Rightarrow> Inl err | Inr s_seq \<Rightarrow>
      case chain_map s_seq of Inl err \<Rightarrow> Inl err | Inr sc \<Rightarrow>
      case py_getitem d ''sequences'' of Inl err \<Rightarrow> Inl err | Inr d_seq \<Rightarrow>
      case chain_map d_seq of Inl err \<Rightarrow> Inl err | Inr dc \<Rightarrow>
      if filter (\<lambda>(cid, p). key_get sc cid = None) dc \<noteq> [] then Inl ValueError
      else
      case py_iter d_seq of Inl err \<Rightarrow> Inl err | Inr ents \<Rightarrow>
      case merge_entries sc ents of Inl err \<Rightarrow> Inl err | Inr ents' \<Rightarrow>
      case (s, d) of
        (JDict skv, JDict dkv) \<Rightarrow>
          (let dkv' = (if is_list d_seq then dict_set dkv ''sequences'' (JList ents') else dkv)
           in case py_max (get_version dkv') (get_version skv) of
                Inl err \<Rightarrow> Inl err
              | Inr v \<Rightarrow> Inr (JDict (dict_set dkv' ''version'' v)))
      | _ \<Rightarrow> Inl AttributeError)"

subsection \<open>Serialisation and canonicalisation\<close>

text \<open>\<^verbatim>\<open>json.dumps(d, indent=2, separators=(",", ": "))\<close>, with the default
  \<^verbatim>\<open>ensure_ascii\<close>.\<close>

definition hex_digit :: "nat \<Rightarrow> char" where
  "hex_digit n = ''0123456789abcdef'' ! (n mod 16)"

definition escape_char :: "char \<Rightarrow> string" where
  "escape_char c =
     (if c = CHR 0x22 then [CHR 0x5C, CHR 0x22]
      else if c = CHR 0x5C then [CHR 0x5C, CHR 0x5C]
      else if c = CHR 0x0A then [CHR 0x5C, CHR ''n'']
      else if c = CHR 0x0D then [CHR 0x5C, CHR ''r'']
      else if c = CHR 0x09 then [CHR 0x5C, CHR ''t'']
      else if c = CHR 0x08 then [CHR 0x5C, CHR ''b'']
      else if c = CHR 0x0C then [CHR 0x5C, CHR ''f'']
      else if 32 \<le> (of_char c :: nat) \<and> (of_char c :: nat) \<le> 126 then [c]
      else [CHR 0x5C, CHR ''u'', CHR ''0'', CHR ''0'',
            hex_digit (of_char c div 16), hex_digit (of_char c)])"

definition quote :: "string \<Rightarrow> string" where
  "quote s = [CHR 0x22] @ concat (map escape_char s) @ [CHR 0x22]"

definition str_int :: "int \<Rightarrow> string" where
  "str_int n = (if n < 0 then ''-'' @ str_nat (nat (- n)) else str_nat (nat n))"

fun join :: "string \<Rightarrow> string list \<Rightarrow> string" where
  "join sep [] = []"
| "join sep [x] = x"
| "join sep (x # y # ys) = x @ sep @ join sep (y # ys)"

definition newline_indent :: "nat \<Rightarrow> string" where
  "newline_indent level = CHR 0x0A # replicate (2 * level) CHR '' ''"

fun dumps :: "nat \<Rightarrow> json \<Rightarrow> string" where
  "dumps level JNull = ''null''"
| "dumps level (JBool b) = (if b then ''true'' else ''false'')"
| "dumps level (JInt n) = str_int n"
| "dumps level (JStr s) = quote s"
| "dumps level (JList xs) =
     (if xs = [] then ''[]''
      else ''['' @ newline_indent (level + 1)
           @ join ('','' @ newline_indent (level + 1)) (map (dumps (level + 1)) xs)
           @ newline_indent level @ '']'')"
| "dumps level (JDict kvs) =
     (if kvs = [] then ''{}''
      else ''{'' @ newline_indent (level + 1)
           @ join ('','' @ newline_indent (level + 1))
                  (map (\<lambda>(k, v). quote k @ '': '' @ dumps (level + 1) v) kvs)
           @ newline_indent level @ ''}'')"

text \<open>\<^verbatim>\<open>\s\<close> on ASCII text\<close>

definition is_space :: "char \<Rightarrow> bool" where
  "is_space c = (c \<in> set [CHR '' '', CHR 0x09, CHR 0x0A, CHR 0x0B, CHR 0x0C, CHR 0x0D,
                            CHR 0x1C, CHR 0x1D, CHR 0x1E, CHR 0x1F])"

text \<open>The class \<^verbatim>\<open>[\s0-9,]\<close>\<close>

definition in_array_class :: "char \<Rightarrow> bool" where
  "in_array_class c = (is_space c \<or> is_digit c \<or> c = CHR '','')"

text \<open>\<^verbatim>\<open>s.replace(old, new)\<close> for a pattern \<open>old\<close> that is not empty\<close>

function py_replace :: "string \<Rightarrow> string \<Rightarrow> string \<Rightarrow> string" where
  "py_replace old new [] = []"
| "py_replace old new (c # cs) =
     (if old \<noteq> [] \<and> startswith (c # cs) old
      then new @ py_replace old new (drop (length old) (c # cs))
      else c # py_replace old new cs)"
  by pat_completeness auto
termination
  by (relation "measure (\<lambda>(old, new, s). length s)") auto

text \<open>
  One match of the pattern of \<open>collapse\<close> at the head of the text: the three groups and
  the text behind the match. \<^verbatim>\<open>\s*\<close> takes all the white space there is, since a colon
  and a bracket are no white space; the lazy \<^verbatim>\<open>[\s0-9,]+?\<close> ends at the first bracket,
  which is not in its class.
\<close>

definition match_template_indices :: "string \<Rightarrow> (string \<times> string \<times> string \<times> string) option" where
  "match_template_indices txt =
     (let name = [CHR 0x22] @ ''templateIndices'' @ [CHR 0x22] in
      if \<not> startswith txt name then None
      else let r0 = drop (length name) txt;
               ws1 = takeWhile is_space r0; r1 = dropWhile is_space r0
      in case r1 of
           [] \<Rightarrow> None
         | c1 # r2 \<Rightarrow>
             if c1 \<noteq> CHR '':'' then None
             else let ws2 = takeWhile is_space r2; r3 = dropWhile is_space r2
             in case r3 of
                  [] \<Rightarrow> None
                | c2 # r4 \<Rightarrow>
                    if c2 \<noteq> CHR ''['' then None
                    else let body = takeWhile in_array_class r4; r5 = dropWhile in_array_class r4
                    in case r5 of
                         [] \<Rightarrow> None
                       | c3 # r6 \<Rightarrow>
                           if c3 = CHR '']'' \<and> body \<noteq> []
                           then Some (name @ ws1 @ '':'' @ ws2 @ ''['', body, '']'', r6)
                           else None)"

lemma dropWhile_Cons_shorter: "dropWhile P xs = c # r \<Longrightarrow> length r < length xs"
  using length_dropWhile_le [of P xs] by simp

lemma match_template_indices_shorter:
  assumes "match_template_indices txt = Some (g1, g2, g3, rest)"
  shows "length rest < length txt"
proof -
  let ?name = "[CHR 0x22] @ ''templateIndices'' @ [CHR 0x22]"
  let ?r0 = "drop (length ?name) txt"
  obtain r2 where 1: "dropWhile is_space ?r0 = CHR '':'' # r2"
    using assms unfolding match_template_indices_def Let_def
    by (auto split: if_splits list.splits)
  obtain r4 where 2: "dropWhile is_space r2 = CHR ''['' # r4"
    using assms 1 unfolding match_template_indices_def Let_def
    by (auto split: if_splits list.splits)
  have 3: "dropWhile in_array_class r4 = CHR '']'' # rest"
    using assms 1 2 unfolding match_template_indices_def Let_def
    by (auto split: if_splits list.splits)
  have "length rest < length r4" using 3 by (rule dropWhile_Cons_shorter)
  also have "\<dots> < length r2" using 2 by (rule dropWhile_Cons_shorter)
  also have "\<dots> < length ?r0" using 1 by (rule dropWhile_Cons_shorter)
  also have "\<dots> \<le> length txt" by simp
  finally show ?thesis .
qed

text \<open>\<open>collapse\<close>: \<^verbatim>\<open>re.sub\<close> goes through the text from the left and rewrites every match
  with the function it is given. The first \<^verbatim>\<open>replace\<close> of that function looks for a
  backslash followed by the letter n, as \<^verbatim>\<open>"\\n"\<close> denotes.\<close>

function collapse :: "string \<Rightarrow> string" where
  "collapse [] = []"
| "collapse (c # cs) =
     (case match_template_indices (c # cs) of
        Some (g1, g2, g3, rest) \<Rightarrow>
          g1 @ py_replace '' '' [] (py_replace [CHR 0x5C, CHR ''n''] [] g2) @ g3 @ collapse rest
      | None \<Rightarrow> c # collapse cs)"
  by pat_completeness auto
termination
  by (relation "measure length") (auto dest: match_template_indices_shorter)

subsection \<open>Files\<close>

text \<open>What \<^verbatim>\<open>json.loads\<close> makes of the text of a file: a document, or a
  \<^verbatim>\<open>JSONDecodeError\<close> for a text that is no document, such as a partial write. A file
  written from a document holds that document.\<close>

datatype json_file = Unreadable | Doc json

fun read_json :: "json_file \<Rightarrow> py_error + json" where
  "read_json Unreadable = Inl JSONDecodeError"
| "read_json (Doc d) = Inr d"

text \<open>\<open>merge_json\<close>: the text that the script writes.\<close>

definition merge_json :: "json_file \<Rightarrow> json_file \<Rightarrow> py_error + string" where
  "merge_json msa fresh =
     (case read_json msa of Inl err \<Rightarrow> Inl err | Inr s \<Rightarrow>
      case read_json fresh of Inl err \<Rightarrow> Inl err | Inr d \<Rightarrow>
      case merge_doc s d of Inl err \<Rightarrow> Inl err | Inr d' \<Rightarrow> Inr (collapse (dumps 0 d')))"

subsection \<open>The main pass and the triage\<close>

text \<open>\<^verbatim>\<open>sum(1 for e in seq if k in e)\<close>\<close>

fun count_with :: "string \<Rightarrow> json list \<Rightarrow> py_error + nat" where
  "count_with k [] = Inr 0"
| "count_with k (e # es) =
     (case py_in k e of
        Inl err \<Rightarrow> Inl err
      | Inr b \<Rightarrow> (case count_with k es of Inl err \<Rightarrow> Inl err | Inr n \<Rightarrow> Inr (if b then n + 1 else n)))"

text \<open>\<open>is_single_protein_ligand\<close>, on the job's \<^verbatim>\<open>alphafold_input.json\<close>. Only the parsing
  is inside the \<^verbatim>\<open>try\<close>.\<close>

definition is_single_protein_ligand :: "json_file \<Rightarrow> py_error + bool" where
  "is_single_protein_ligand f =
     (case read_json f of
        Inl err \<Rightarrow> Inr False
      | Inr (JDict kvs) \<Rightarrow>
          (let seqs = (case map_of kvs ''sequences'' of None \<Rightarrow> JList [] | Some v \<Rightarrow> v) in
           case py_iter seqs of Inl err \<Rightarrow> Inl err | Inr es \<Rightarrow>
           case count_with ''protein'' es of Inl err \<Rightarrow> Inl err | Inr nprot \<Rightarrow>
           case count_with ''ligand'' es of Inl err \<Rightarrow> Inl err | Inr nlig \<Rightarrow>
           Inr (nprot = 1 \<and> nlig = 1))
      | Inr _ \<Rightarrow> Inl AttributeError)"

text \<open>
  What the file system answers for one row of the table when the row is processed:
  whether \<open>find_job_dir\<close> finds the job directory, whether its \<^verbatim>\<open>output_msa\<close> directory
  exists, the candidate files of \<open>find_msa_candidates\<close> in sorted order, and the job's
  \<^verbatim>\<open>alphafold_input.json\<close>.
\<close>

record row_env =
  job_dir :: bool
  out_dir :: bool
  cands :: "json_file list"
  fresh :: json_file

text \<open>The variables of the main pass; \<open>written\<close> lists the texts written to
  \<^verbatim>\<open>output_msa/alphafold_input_with_msa.json\<close>, by job.\<close>

record batch_state =
  msa_array :: "string list"
  waiting :: "string list"
  seen_base :: "string set"
  base_done :: "string set"
  stats_copy :: nat
  stats_skip :: nat
  stats_warn :: nat
  written :: "(string \<times> string) list"

definition initial_state :: batch_state where
  "initial_state = \<lparr>msa_array = [], waiting = [], seen_base = {}, base_done = {},
                     stats_copy = 0, stats_skip = 0, stats_warn = 0, written = []\<rparr>"

text \<open>The last block of the loop body.\<close>

definition triage :: "string \<Rightarrow> string \<Rightarrow> batch_state \<Rightarrow> batch_state" where
  "triage job bkey st =
     (if bkey \<in> base_done st \<or> bkey \<in> seen_base st
      then st\<lparr>waiting := waiting st @ [job]\<rparr>
      else st\<lparr>msa_array := msa_array st @ [job], seen_base := insert bkey (seen_base st)\<rparr>)"

text \<open>The loop body for one row. \<open>parse_entries\<close> and \<open>is_single_protein_ligand\<close> are called
  outside any \<^verbatim>\<open>try\<close>: their exception ends the script. An exception of \<open>merge_json\<close> is
  caught and the row goes on to the triage.\<close>

definition row_step :: "bool \<Rightarrow> string \<times> row_env \<Rightarrow> batch_state \<Rightarrow> py_error + batch_state" where
  "row_step dry row st =
     (case row of (job, env) \<Rightarrow>
      case parse_entries job of
        Inl err \<Rightarrow> Inl err
      | Inr (e1, e2) \<Rightarrow>
          (let bkey = base_key e1 e2 in
           if \<not> job_dir env then Inr (st\<lparr>stats_warn := stats_warn st + 1\<rparr>)
           else case is_single_protein_ligand (fresh env) of
               Inl err \<Rightarrow> Inl err
             | Inr True \<Rightarrow>
                 Inr (st\<lparr>stats_skip := stats_skip st + 1, base_done := insert bkey (base_done st)\<rparr>)
             | Inr False \<Rightarrow>
                 if out_dir env then
                   Inr (st\<lparr>stats_skip := stats_skip st + 1, base_done := insert bkey (base_done st)\<rparr>)
                 else if cands env \<noteq> [] \<and> dry then
                   Inr (st\<lparr>base_done := insert bkey (base_done st)\<rparr>)
                 else if cands env \<noteq> [] then
                   (case merge_json (hd (cands env)) (fresh env) of
                      Inr merged \<Rightarrow>
                        Inr (st\<lparr>written := written st @ [(job, merged)],
                                 stats_copy := stats_copy st + 1,
                                 base_done := insert bkey (base_done st)\<rparr>)
                    | Inl err \<Rightarrow> Inr (triage job bkey (st\<lparr>stats_warn := stats_warn st + 1\<rparr>)))
                 else Inr (triage job bkey st)))"

text \<open>The loop over the rows; an exception that leaves the loop body leaves the script.\<close>

fun main_pass :: "bool \<Rightarrow> (string \<times> row_env) list \<Rightarrow> batch_state \<Rightarrow> py_error + batch_state" where
  "main_pass dry [] st = Inr st"
| "main_pass dry (row # rows) st =
     (case row_step dry row st of Inl err \<Rightarrow> Inl err | Inr st' \<Rightarrow> main_pass dry rows st')"

text \<open>The base key of a job identifier, when \<open>parse_entries\<close> returns.\<close>

definition job_base_key :: "string \<Rightarrow> string option" where
  "job_base_key job = (case parse_entries job of Inl err \<Rightarrow> None | Inr (e1, e2) \<Rightarrow> Some (base_key e1 e2))"

subsection \<open>Rows without a donor\<close>

text \<open>A row for which nothing can be reused: the job directory exists, the job is no
  single-protein-ligand job, it has no \<^verbatim>\<open>output_msa\<close> directory and no donor candidate.\<close>

definition miss_row :: "string \<times> row_env \<Rightarrow> bool" where
  "miss_row row =
     (case row of (job, env) \<Rightarrow>
        job_base_key job \<noteq> None \<and> job_dir env
        \<and> is_single_protein_ligand (fresh env) = Inr False
        \<and> \<not> out_dir env \<and> cands env = [])"

text \<open>The job at position \<open>n\<close> is the first of its base key.\<close>

definition first_of_key :: "string list \<Rightarrow> nat \<Rightarrow> bool" where
  "first_of_key jobs n = (job_base_key (jobs ! n) \<notin> job_base_key ` set (take n jobs))"


section \<open>The batch extraction script: validation and writing\<close>

subsection \<open>Ligand values\<close>

text \<open>The truth value of a document value, as \<^verbatim>\<open>or\<close> takes it.\<close>

fun truthy :: "json \<Rightarrow> bool" where
  "truthy JNull = False"
| "truthy (JBool b) = b"
| "truthy (JInt n) = (n \<noteq> 0)"
| "truthy (JStr s) = (s \<noteq> [])"
| "truthy (JList xs) = (xs \<noteq> [])"
| "truthy (JDict kvs) = (kvs \<noteq> [])"

text \<open>The local function \<open>first_lig\<close> of \<open>output_is_complete\<close>, which is also the first loop
  of \<open>find_ligand_value\<close>: the ligand of the first entry of the sequences list that has
  one. \<^verbatim>\<open>None\<close> is \<open>JNull\<close>.\<close>

definition first_lig :: "json \<Rightarrow> json option" where
  "first_lig o_json =
     (case dict_get o_json ''sequences'' of
        Some (JList seqs) \<Rightarrow>
          (case List.find (has_key ''ligand'') seqs of
             Some el \<Rightarrow> dict_get el ''ligand''
           | None \<Rightarrow> None)
      | _ \<Rightarrow> None)"

text \<open>The queue loop of \<open>find_ligand_value\<close>.\<close>

lemma size_list_values_le:
  "size_list (size \<circ> snd) kvs < Suc (Suc (size_list (size_prod (\<lambda>x. 0) size) kvs))"
  by (induction kvs) auto

function ligand_search :: "json list \<Rightarrow> json" where
  "ligand_search [] = JNull"
| "ligand_search (cur # q) =
     (case cur of
        JDict kvs \<Rightarrow>
          (case map_of kvs ''ligand'' of
             Some v \<Rightarrow> v
           | None \<Rightarrow>
              (case map_of kvs ''ligands'' of
                 Some v \<Rightarrow> v
               | None \<Rightarrow> ligand_search (q @ map snd kvs)))
      | JList xs \<Rightarrow> ligand_search (q @ xs)
      | _ \<Rightarrow> ligand_search q)"
  by pat_completeness auto
termination
  by (relation "measure (\<lambda>q. size_list size q)")
     (auto simp: size_list_append size_list_values_le)

definition find_ligand_value :: "json \<Rightarrow> json" where
  "find_ligand_value obj =
     (case first_lig obj of Some v \<Rightarrow> v | None \<Rightarrow> ligand_search [obj])"

text \<open>The local function \<open>walk\<close> of \<open>override_ligand\<close>.\<close>

fun walk :: "json \<Rightarrow> json \<Rightarrow> json" where
  "walk ligand_value (JDict kvs) =
     JDict (map (\<lambda>(k, v). (k, if k = ''ligand'' then ligand_value
                               else if k = ''ligands''
                                    then (if is_list ligand_value then ligand_value else JList [ligand_value])
                               else walk ligand_value v)) kvs)"
| "walk ligand_value (JList xs) = JList (map (walk ligand_value) xs)"
| "walk ligand_value x = x"

definition override_ligand :: "json \<Rightarrow> json \<Rightarrow> json" where
  "override_ligand out_json ligand_value =
     (if ligand_value = JNull then out_json else walk ligand_value out_json)"

subsection \<open>CompletenessValidator\<close>

text \<open>\<^verbatim>\<open>x.get(k)\<close> as a value: \<^verbatim>\<open>None\<close> for a missing key.\<close>

definition get_or_none :: "(string \<times> json) list \<Rightarrow> string \<Rightarrow> json" where
  "get_or_none kvs k = (case map_of kvs k of Some v \<Rightarrow> v | None \<Rightarrow> JNull)"

text \<open>\<^verbatim>\<open>first_lig(o) or find_ligand_value(o)\<close>\<close>

definition ligand_of :: "json \<Rightarrow> json" where
  "ligand_of o_json =
     (let a = (case first_lig o_json of Some v \<Rightarrow> v | None \<Rightarrow> JNull)
      in if truthy a then a else find_ligand_value o_json)"

text \<open>
  \<open>output_is_complete\<close>. A destination that is no dictionary has no \<^verbatim>\<open>get\<close>: the name
  test raises \<^verbatim>\<open>AttributeError\<close> once the output is known to be a dictionary.
\<close>

definition output_is_complete :: "json \<Rightarrow> json \<Rightarrow> py_error + bool" where
  "output_is_complete out_json dest_json =
     (case out_json of
        JDict okv \<Rightarrow>
          (case dest_json of
             JDict dkv \<Rightarrow>
               Inr (if \<not> py_eq (get_or_none okv ''name'') (get_or_none dkv ''name'') then False
                    else case map_of okv ''sequences'' of
                      Some (JList seqs) \<Rightarrow>
                        (let prot = filter (has_key ''protein'') seqs;
                             lig = filter (has_key ''ligand'') seqs
                         in if length prot \<noteq> 1 \<or> length lig < 1 then False
                            else case dict_get (hd prot) ''protein'' of
                              Some (JDict protein) \<Rightarrow>
                                if ''unpairedMsa'' \<notin> set (map fst protein) then False
                                else if ''pairedMsa'' \<in> set (map fst protein) then False
                                else if has_paired out_json then False
                                else
                                  (let lig_dest = ligand_of dest_json;
                                       lig_out = ligand_of out_json
                                   in if lig_dest \<noteq> JNull \<and> lig_out \<noteq> JNull
                                         \<and> \<not> py_eq lig_dest lig_out
                                      then False else True)
                            | _ \<Rightarrow> False)
                    | _ \<Rightarrow> False)
           | _ \<Rightarrow> Inl AttributeError)
      | _ \<Rightarrow> Inr False)"

subsection \<open>Producing the single-chain document\<close>

text \<open>\<^verbatim>\<open>d.pop(k, None)\<close>\<close>

definition dict_pop :: "(string \<times> json) list \<Rightarrow> string \<Rightarrow> (string \<times> json) list" where
  "dict_pop kvs k = filter (\<lambda>(k', v). k' \<noteq> k) kvs"

text \<open>The body of the last loop of \<open>make_single_chain_with_msa\<close>, on one element of the
  sequences list.\<close>

definition drop_modifications :: "json \<Rightarrow> json" where
  "drop_modifications el =
     (case el of
        JDict ekv \<Rightarrow>
          (case map_of ekv ''protein'' of
             Some (JDict protein) \<Rightarrow>
               JDict (dict_set ekv ''protein'' (JDict (dict_pop protein ''modifications'')))
           | _ \<Rightarrow> el)
      | _ \<Rightarrow> el)"

text \<open>
  The body of \<open>make_single_chain_with_msa\<close> of the batch script up to the document that
  it hands to \<open>safe_write_json\<close>. A pruned donor that is no dictionary takes no name and has no
  two-argument \<^verbatim>\<open>pop\<close>.
\<close>

definition single_chain_document :: "json_file \<Rightarrow> json_file \<Rightarrow> py_error + json" where
  "single_chain_document dest_input donor_with_msa =
     (case read_json dest_input of Inl err \<Rightarrow> Inl err | Inr dest \<Rightarrow>
      case read_json donor_with_msa of Inl err \<Rightarrow> Inl err | Inr donor \<Rightarrow>
      (let dest_seq = find_first_sequence dest;
           keep_idx = choose_chain_index_by_sequence Batch donor dest_seq;
           pruned = prune_chain_dimension Batch (strip_paired_blocks donor) keep_idx;
           ligand_value = find_ligand_value dest;
           out_json = override_ligand pruned ligand_value
       in case out_json of
            JDict okv \<Rightarrow>
              (let okv1 = (case dict_get dest ''name'' of Some n \<Rightarrow> dict_set okv ''name'' n | None \<Rightarrow> okv);
                   okv2 = dict_pop (dict_pop okv1 ''bondedAtomPairs'') ''userCCD'';
                   okv3 = (case map_of okv2 ''sequences'' of
                             Some (JList seqs) \<Rightarrow>
                               dict_set okv2 ''sequences'' (JList (map drop_modifications seqs))
                           | _ \<Rightarrow> okv2)
               in Inr (JDict okv3))
          | JList xs \<Rightarrow> Inl TypeError
          | _ \<Rightarrow> Inl (if has_key ''name'' dest then TypeError else AttributeError)))"

subsection \<open>Writing and resuming\<close>

text \<open>The two files of one job: the canonical output
  \<^verbatim>\<open>output_msa/alphafold_input_with_msa.json\<close> and its sibling with the suffix
  \<^verbatim>\<open>.tmp\<close>; \<open>None\<close> is a path that does not exist.\<close>

record job_files =
  out_file :: "json_file option"
  tmp_file :: "json_file option"

text \<open>
  \<open>safe_write_json\<close>: the states of the two files while it runs. The temporary file is
  opened and holds a part of the text, then all of it, then it replaces the output file.
\<close>

definition safe_write_json_steps :: "json \<Rightarrow> job_files \<Rightarrow> job_files list" where
  "safe_write_json_steps obj fs =
     [fs\<lparr>tmp_file := Some Unreadable\<rparr>,
      fs\<lparr>tmp_file := Some (Doc obj)\<rparr>,
      fs\<lparr>out_file := Some (Doc obj), tmp_file := None\<rparr>]"

definition safe_write_json :: "json \<Rightarrow> job_files \<Rightarrow> job_files" where
  "safe_write_json obj fs = last (safe_write_json_steps obj fs)"

text \<open>\<^verbatim>\<open>output_is_complete(load_json(path), dest_json)\<close> inside a \<^verbatim>\<open>try\<close> whose handler
  gives up: an exception counts as not complete.\<close>

definition complete_file :: "json_file \<Rightarrow> json \<Rightarrow> bool" where
  "complete_file f dest_json =
     (case read_json f of
        Inl err \<Rightarrow> False
      | Inr o_json \<Rightarrow> (case output_is_complete o_json dest_json of Inr b \<Rightarrow> b | Inl err \<Rightarrow> False))"

definition finalize_or_fix_partial :: "job_files \<Rightarrow> json \<Rightarrow> bool \<times> job_files" where
  "finalize_or_fix_partial fs dest_json =
     (case (case tmp_file fs of
              Some t \<Rightarrow> (if complete_file t dest_json
                         then Inl (fs\<lparr>out_file := Some t, tmp_file := None\<rparr>)
                         else Inr (fs\<lparr>tmp_file := None\<rparr>))
            | None \<Rightarrow> Inr fs) of
        Inl promoted \<Rightarrow> (True, promoted)
      | Inr fs' \<Rightarrow>
          (case out_file fs' of
             Some f \<Rightarrow> (complete_file f dest_json, fs')
           | None \<Rightarrow> (False, fs')))"

datatype summary =
    SKIP_already_complete
  | FIXED_finalized_partial
  | WOULD_WRITE
  | OK
  | ERROR_post_write_validation_failed
  | ERROR_exception py_error
  | ERROR_dest_input_unreadable

text \<open>\<open>make_single_chain_with_msa\<close>: the document is computed and written.\<close>

definition make_single_chain_with_msa :: "json_file \<Rightarrow> json_file \<Rightarrow> job_files \<Rightarrow> py_error + job_files" where
  "make_single_chain_with_msa dest_input donor_with_msa fs =
     (case single_chain_document dest_input donor_with_msa of
        Inl err \<Rightarrow> Inl err
      | Inr out_json \<Rightarrow> Inr (safe_write_json out_json fs))"

text \<open>The end of the loop body of \<open>main\<close>, from the dry-run test on.\<close>

definition regenerate :: "bool \<Rightarrow> json_file \<Rightarrow> json_file \<Rightarrow> json \<Rightarrow> job_files \<Rightarrow> summary \<times> job_files" where
  "regenerate dry_run dest_input donor_with_msa dest_json fs =
     (if dry_run then (WOULD_WRITE, fs)
      else case make_single_chain_with_msa dest_input donor_with_msa fs of
             Inl err \<Rightarrow> (ERROR_exception err, fs)
           | Inr fs' \<Rightarrow>
               (if (case out_file fs' of Some f \<Rightarrow> complete_file f dest_json | None \<Rightarrow> False)
                then OK else ERROR_post_write_validation_failed, fs'))"

text \<open>The loop body of \<open>main\<close> for a job that has a destination input and a donor.\<close>

definition process_job :: "bool \<Rightarrow> json_file \<Rightarrow> json_file \<Rightarrow> job_files \<Rightarrow> summary \<times> job_files" where
  "process_job dry_run dest_input donor_with_msa fs =
     (case read_json dest_input of
        Inl err \<Rightarrow> (ERROR_dest_input_unreadable, fs)
      | Inr dest_json \<Rightarrow>
          (case out_file fs of
             Some f \<Rightarrow>
               if complete_file f dest_json then (SKIP_already_complete, fs)
               else (case finalize_or_fix_partial fs dest_json of
                       (True, fs') \<Rightarrow> (FIXED_finalized_partial, fs')
                     | (False, fs') \<Rightarrow> regenerate dry_run dest_input donor_with_msa dest_json fs')
           | None \<Rightarrow> regenerate dry_run dest_input donor_with_msa dest_json fs))"

section \<open>Properties of the PruneEngine\<close>

lemma has_paired_keys: "has_paired d = list_ex is_paired_key (all_mapping_keys d)"
proof (induction d rule: all_mapping_keys.induct)
  case (1 kvs)
  have IH: "has_paired v = list_ex is_paired_key (all_mapping_keys v)"
    if "(k, v) \<in> set kvs" for k v
    using 1 [OF that refl] .
  have "has_paired (JDict kvs) = (\<exists>(k, v) \<in> set kvs. is_paired_key k \<or> has_paired v)"
    by (simp add: list_ex_iff)
  also have "\<dots> = (\<exists>(k, v) \<in> set kvs. list_ex is_paired_key (k # all_mapping_keys v))"
    by (rule bex_cong [OF refl]) (auto simp: IH)
  also have "\<dots> = list_ex is_paired_key (all_mapping_keys (JDict kvs))"
    by (fastforce simp: list_ex_iff)
  finally show ?case .
qed (auto simp: list_ex_iff)

lemma prune_no_paired: "\<not> has_paired (prune_chain_dimension sc d i)"
  by (induction sc d i rule: prune_chain_dimension.induct)
     (auto simp: list_ex_iff split: option.splits)

text \<open>
  C1. For every document and every selected index 0 or 1, the document that
  \<open>prune_chain_dimension\<close> returns for the output of \<open>strip_paired_blocks\<close> has no mapping,
  at any depth, with a paired-alignment key: \<open>has_paired\<close>, the validator's own search,
  finds none, and no key of any mapping of the result is in \<open>DROP_EXACT_KEYS\<close> or begins,
  case-insensitively, with \<^verbatim>\<open>paired\<close>.
\<close>

theorem prune_engine_no_paired_residue:
  assumes "keep_index \<in> {0, 1}"
  shows "\<not> has_paired (prune_chain_dimension sc (strip_paired_blocks d) keep_index)
       \<and> (\<forall>k \<in> set (all_mapping_keys (prune_chain_dimension sc (strip_paired_blocks d) keep_index)).
             k \<notin> set DROP_EXACT_KEYS \<and> \<not> startswith (lower k) ''paired'')"
proof -
  let ?r = "prune_chain_dimension sc (strip_paired_blocks d) keep_index"
  have np: "\<not> has_paired ?r" by (rule prune_no_paired)
  then have "\<forall>k \<in> set (all_mapping_keys ?r). \<not> is_paired_key k"
    by (simp add: has_paired_keys list_ex_iff)
  with np show ?thesis by (simp add: is_paired_key_def)
qed

theorem prune_engine_no_paired_residue_witness:
  "(1::nat) \<in> {0, 1}
   \<and> \<not> has_paired (prune_chain_dimension Batch (strip_paired_blocks
        (JDict [(''pairedMsa'', JStr ''x''),
                (''chains'', JList [JDict [(''seq'', JStr ''M''), (''Paired_rows'', JNull)],
                                    JDict [(''seq'', JStr ''K''), (''complex_msa'', JNull)]])])) 1)"
  using prune_engine_no_paired_residue
    [of 1 Batch "JDict [(''pairedMsa'', JStr ''x''),
                (''chains'', JList [JDict [(''seq'', JStr ''M''), (''Paired_rows'', JNull)],
                                    JDict [(''seq'', JStr ''K''), (''complex_msa'', JNull)]])]"]
  by simp

lemma prune_reduced: "reduced sc i d \<Longrightarrow> prune_chain_dimension sc d i = d"
proof (induction sc d i rule: prune_chain_dimension.induct)
  case (1 sc obj keep_index)
  from "1.prems" have ct: "chain_target obj keep_index = None"
    and all: "\<And>k v. (k, v) \<in> set obj \<Longrightarrow>
                \<not> is_paired_key k \<and> seq_target sc k v keep_index = v \<and> reduced sc keep_index v"
    by (auto simp: list_all_iff)
  have f: "filter (\<lambda>(k, v). \<not> is_paired_key k) obj = obj"
    using all by (auto simp: filter_id_conv)
  have "map (\<lambda>(k, v). (k, prune_chain_dimension sc (seq_target sc k v keep_index) keep_index)) obj = obj"
  proof (rule map_idI)
    fix x assume x: "x \<in> set obj"
    obtain k v where kv: "x = (k, v)" by (cases x)
    have "prune_chain_dimension sc (seq_target sc k v keep_index) keep_index = seq_target sc k v keep_index"
      using "1.IH"(1) [OF ct _ kv [symmetric]] x kv f all by auto
    then show "(case x of (k, v) \<Rightarrow> (k, prune_chain_dimension sc (seq_target sc k v keep_index) keep_index)) = x"
      using all x kv by auto
  qed
  then show ?case using ct f by simp
next
  case (2 sc obj keep_index)
  show ?case
  proof (cases "is_sequences_list obj")
    case True
    with "2.prems" have sel: "select_entries keep_index 0 obj = obj"
      and all: "\<And>x. x \<in> set obj \<Longrightarrow> reduced sc keep_index x"
      by (auto simp: list_all_iff)
    have "map (\<lambda>el. prune_chain_dimension sc el keep_index) obj = obj"
      using "2.IH"(1) [OF True] sel all by (intro map_idI) auto
    then show ?thesis using True sel by simp
  next
    case False
    with "2.prems" have ncl: "\<not> (is_chain_like_list sc obj \<and> keep_index < length obj)"
      and all: "\<And>x. x \<in> set obj \<Longrightarrow> reduced sc keep_index x"
      by (auto simp: list_all_iff)
    have "map (\<lambda>el. prune_chain_dimension sc el keep_index) obj = obj"
      using "2.IH"(3) [OF False ncl] all by (intro map_idI) auto
    then show ?thesis using False ncl by auto
  qed
qed auto

lemma size_list_map_filter_le:
  assumes "\<And>x. x \<in> set xs \<Longrightarrow> P x \<Longrightarrow> f (g x) \<le> h x"
  shows "size_list f (map g (filter P xs)) \<le> size_list h xs"
  using assms
proof (induction xs)
  case (Cons a xs)
  have IH: "size_list f (map g (filter P xs)) \<le> size_list h xs"
    using Cons by simp
  show ?case
  proof (cases "P a")
    case True
    then have "f (g a) \<le> h a" using Cons.prems by simp
    then show ?thesis using IH True by simp
  next
    case False
    then show ?thesis using IH by simp
  qed
qed simp

lemma size_list_select_entries_le:
  "size_list f (select_entries i n xs) \<le> size_list f xs"
  by (induction xs arbitrary: n) (auto simp: le_SucI trans_le_add2)

lemma size_prune_le: "size (prune_chain_dimension sc d i) \<le> size d"
proof (induction sc d i rule: prune_chain_dimension.induct)
  case (1 sc obj keep_index)
  show ?case
  proof (cases "chain_target obj keep_index")
    case None
    have "size_list (size_prod (\<lambda>x. 0) size)
            (map (\<lambda>(k, v). (k, prune_chain_dimension sc (seq_target sc k v keep_index) keep_index))
                 (filter (\<lambda>(k, v). \<not> is_paired_key k) obj))
          \<le> size_list (size_prod (\<lambda>x. 0) size) obj"
    proof (rule size_list_map_filter_le)
      fix x assume x: "x \<in> set obj" and px: "case x of (k, v) \<Rightarrow> \<not> is_paired_key k"
      obtain k v where kv: "x = (k, v)" by (cases x)
      have "size (prune_chain_dimension sc (seq_target sc k v keep_index) keep_index)
                   \<le> size (seq_target sc k v keep_index)"
        using "1.IH"(1) [OF None _ kv [symmetric]] x kv px by auto
      then show "size_prod (\<lambda>x. 0) size
              (case x of (k, v) \<Rightarrow> (k, prune_chain_dimension sc (seq_target sc k v keep_index) keep_index))
            \<le> size_prod (\<lambda>x. 0) size x"
        using size_seq_target [of sc k v keep_index] kv by simp
    qed
    then show ?thesis using None by simp
  next
    case (Some sub)
    then show ?thesis using "1.IH"(2) [OF Some] size_chain_target [OF Some] by simp
  qed
next
  case (2 sc obj keep_index)
  show ?case
  proof (cases "is_sequences_list obj")
    case True
    have "size_list size (map (\<lambda>el. prune_chain_dimension sc el keep_index)
                              (filter (\<lambda>_. True) (select_entries keep_index 0 obj)))
          \<le> size_list size (select_entries keep_index 0 obj)"
      using "2.IH"(1) [OF True] by (intro size_list_map_filter_le) auto
    also have "\<dots> \<le> size_list size obj" by (rule size_list_select_entries_le)
    finally show ?thesis using True by simp
  next
    case False
    show ?thesis
    proof (cases "is_chain_like_list sc obj \<and> keep_index < length obj")
      case True
      then have "size (obj ! keep_index) < size (JList obj)"
        using size_json_list_mem [of "obj ! keep_index" obj] by simp
      then show ?thesis using "2.IH"(2) [OF False True] False True by simp
    next
      case F2: False
      have "size_list size (map (\<lambda>el. prune_chain_dimension sc el keep_index)
                              (filter (\<lambda>_. True) obj))
          \<le> size_list size obj"
        using "2.IH"(3) [OF False F2] by (intro size_list_map_filter_le) auto
      then show ?thesis using False F2 by auto
    qed
  qed
qed auto

lemma size_seq_cand: "seq_cand sc vd c = Some w \<Longrightarrow> size w < size (JDict vd)"
  unfolding seq_cand_def
  by (auto split: option.splits if_splits dest!: size_json_map_of simp del: json.size)

lemma seq_target_cases: "seq_target sc k v i = v \<or> size (seq_target sc k v i) < size v"
proof (cases v)
  case (JDict vd)
  show ?thesis
  proof (cases "k = ''seq''")
    case True
    show ?thesis
    proof (cases "seq_cand sc vd (chain_keys ! i)")
      case None
      then show ?thesis
        using JDict True size_seq_cand [of sc vd "str_nat (i + 1)"]
        by (cases "seq_cand sc vd (str_nat (i + 1))") (simp_all add: seq_target_def del: json.size)
    next
      case (Some w)
      then show ?thesis
        using JDict True size_seq_cand [OF Some] by (simp add: seq_target_def del: json.size)
    qed
  qed (simp add: seq_target_def JDict)
qed (simp_all add: seq_target_def)

lemma seq_target_neq_size: "seq_target sc k v i \<noteq> v \<Longrightarrow> size (seq_target sc k v i) < size v"
  using seq_target_cases [of sc k v i] by blast

lemma length_select_entries_le: "length (select_entries i n xs) \<le> length xs"
  by (induction xs arbitrary: n) (auto simp: le_SucI)

lemma select_entries_same_length:
  "length (select_entries i n xs) = length xs \<Longrightarrow> select_entries i n xs = xs"
proof (induction xs arbitrary: n)
  case (Cons el els)
  show ?case
    using Cons.prems Cons.IH length_select_entries_le [of i n els]
          length_select_entries_le [of i "n + 1" els]
    by (auto split: if_splits)
qed simp

lemma map_filter_same:
  assumes "map g (filter P xs) = xs"
  shows "filter P xs = xs"
proof -
  have "length (filter P xs) = length xs"
    using assms by (metis length_map)
  moreover have "length (filter P xs) + length (filter (\<lambda>x. \<not> P x) xs) = length xs"
    by (rule sum_length_filter_compl)
  ultimately have "filter (\<lambda>x. \<not> P x) xs = []" by simp
  then show ?thesis by (auto simp: filter_empty_conv filter_id_conv)
qed

lemma map_same_mem: "map f xs = xs \<Longrightarrow> x \<in> set xs \<Longrightarrow> f x = x"
  by (induction xs) auto

lemma prune_fixed_reduced: "prune_chain_dimension sc d i = d \<Longrightarrow> reduced sc i d"
proof (induction sc d i rule: prune_chain_dimension.induct)
  case (1 sc obj keep_index)
  have ct: "chain_target obj keep_index = None"
  proof (cases "chain_target obj keep_index")
    case (Some sub)
    then have "prune_chain_dimension sc sub keep_index = JDict obj" using "1.prems" by simp
    then have "size (JDict obj) \<le> size sub" using size_prune_le [of sc sub keep_index] by simp
    then show ?thesis using size_chain_target [OF Some] by simp
  qed simp
  let ?g = "\<lambda>(k, v). (k, prune_chain_dimension sc (seq_target sc k v keep_index) keep_index)"
  let ?P = "\<lambda>(k, v). \<not> is_paired_key k"
  have m: "map ?g (filter ?P obj) = obj" using "1.prems" ct by simp
  then have f: "filter ?P obj = obj" by (rule map_filter_same)
  with m have m': "map ?g obj = obj" by simp
  have "\<not> is_paired_key k \<and> seq_target sc k v keep_index = v \<and> reduced sc keep_index v"
    if kv: "(k, v) \<in> set obj" for k v
  proof -
    have np: "\<not> is_paired_key k" using f kv by (auto simp: filter_id_conv)
    have pv: "prune_chain_dimension sc (seq_target sc k v keep_index) keep_index = v"
      using map_same_mem [OF m' kv] by simp
    have st: "seq_target sc k v keep_index = v"
    proof (rule ccontr)
      assume "seq_target sc k v keep_index \<noteq> v"
      then have "size (seq_target sc k v keep_index) < size v" by (rule seq_target_neq_size)
      then show False
        using size_prune_le [of sc "seq_target sc k v keep_index" keep_index] pv by simp
    qed
    have "reduced sc keep_index (seq_target sc k v keep_index)"
      using "1.IH"(1) [OF ct _ refl, of k v] kv np pv st by simp
    then show ?thesis using np st by simp
  qed
  then show ?case using ct by (auto simp: list_all_iff)
next
  case (2 sc obj keep_index)
  show ?case
  proof (cases "is_sequences_list obj")
    case True
    let ?sel = "select_entries keep_index 0 obj"
    have m: "map (\<lambda>el. prune_chain_dimension sc el keep_index) ?sel = obj"
      using "2.prems" True by simp
    then have "length ?sel = length obj" by (metis length_map)
    then have sel: "?sel = obj" by (rule select_entries_same_length)
    have "reduced sc keep_index x" if x: "x \<in> set obj" for x
    proof -
      have xs: "x \<in> set ?sel" using x sel by simp
      have "prune_chain_dimension sc x keep_index = x"
        using map_same_mem [of "\<lambda>el. prune_chain_dimension sc el keep_index" obj x] m sel x by simp
      then show ?thesis using "2.IH"(1) [OF True xs] by simp
    qed
    then show ?thesis using True sel by (simp add: list_all_iff)
  next
    case False
    have ncl: "\<not> (is_chain_like_list sc obj \<and> keep_index < length obj)"
    proof
      assume cl: "is_chain_like_list sc obj \<and> keep_index < length obj"
      then have "prune_chain_dimension sc (obj ! keep_index) keep_index = JList obj"
        using "2.prems" False by simp
      then have "size (JList obj) \<le> size (obj ! keep_index)"
        using size_prune_le [of sc "obj ! keep_index" keep_index] by simp
      then show False using size_json_list_mem [of "obj ! keep_index" obj] cl by simp
    qed
    then have m: "map (\<lambda>el. prune_chain_dimension sc el keep_index) obj = obj"
      using "2.prems" False by auto
    have "reduced sc keep_index x" if x: "x \<in> set obj" for x
      using "2.IH"(3) [OF False ncl x] map_same_mem [OF m x] by simp
    then show ?thesis using False ncl by (auto simp: list_all_iff)
  qed
qed auto

text \<open>
  C3 (counterexample). Pruning is not idempotent. With index 1, a sequences list of two protein
  entries and a ligand entry prunes to the second protein and the ligand; pruned again, the one
  protein left is the protein number 0 and is dropped. With index 0, a \<^verbatim>\<open>seq\<close> mapping whose
  selected value holds the selected key again loses one level per pass. Both scripts agree.
\<close>

theorem prune_not_idempotent:
  "prune_chain_dimension Batch (prune_chain_dimension Batch
      (JDict [(''name'', JStr ''donor''),
              (''sequences'', JList [JDict [(''protein'', JDict [(''id'', JStr ''A'')])],
                                     JDict [(''protein'', JDict [(''id'', JStr ''B'')])],
                                     JDict [(''ligand'', JDict [(''id'', JStr ''L'')])]])]) 1) 1
   \<noteq> prune_chain_dimension Batch
      (JDict [(''name'', JStr ''donor''),
              (''sequences'', JList [JDict [(''protein'', JDict [(''id'', JStr ''A'')])],
                                     JDict [(''protein'', JDict [(''id'', JStr ''B'')])],
                                     JDict [(''ligand'', JDict [(''id'', JStr ''L'')])]])]) 1
   \<and> prune_chain_dimension Single (prune_chain_dimension Single
      (JDict [(''name'', JStr ''donor''),
              (''sequences'', JList [JDict [(''protein'', JDict [(''id'', JStr ''A'')])],
                                     JDict [(''protein'', JDict [(''id'', JStr ''B'')])],
                                     JDict [(''ligand'', JDict [(''id'', JStr ''L'')])]])]) 1) 1
   \<noteq> prune_chain_dimension Single
      (JDict [(''name'', JStr ''donor''),
              (''sequences'', JList [JDict [(''protein'', JDict [(''id'', JStr ''A'')])],
                                     JDict [(''protein'', JDict [(''id'', JStr ''B'')])],
                                     JDict [(''ligand'', JDict [(''id'', JStr ''L'')])]])]) 1
   \<and> prune_chain_dimension Batch (prune_chain_dimension Batch
      (JDict [(''seq'', JDict [(''A'', JDict [(''A'', JStr ''MK'')])])]) 0) 0
   \<noteq> prune_chain_dimension Batch
      (JDict [(''seq'', JDict [(''A'', JDict [(''A'', JStr ''MK'')])])]) 0
   \<and> prune_chain_dimension Single (prune_chain_dimension Single
      (JDict [(''seq'', JDict [(''A'', JDict [(''A'', JStr ''MK'')])])]) 0) 0
   \<noteq> prune_chain_dimension Single
      (JDict [(''seq'', JDict [(''A'', JDict [(''A'', JStr ''MK'')])])]) 0"
  by code_simp

text \<open>
  C3 (amended). For every document and every selected index 0 or 1, pruning the output of
  \<open>prune_chain_dimension\<close> again changes nothing exactly when that output is \<open>reduced\<close>:
  no mapping that holds the selected chain key of a two-chain convention, no \<^verbatim>\<open>seq\<close>
  mapping that holds a selected candidate key, every sequences list made of the entries its
  loop keeps, no chain-like list longer than the index, and no paired key. On a reduced
  document pruning is the identity.
\<close>

theorem prune_fixed_point_iff_reduced:
  assumes "keep_index \<in> {0, 1}"
  shows "(prune_chain_dimension sc (prune_chain_dimension sc d keep_index) keep_index
            = prune_chain_dimension sc d keep_index)
         = reduced sc keep_index (prune_chain_dimension sc d keep_index)
       \<and> (reduced sc keep_index d \<longrightarrow> prune_chain_dimension sc d keep_index = d)"
  using prune_reduced prune_fixed_reduced by blast

theorem prune_fixed_point_iff_reduced_witness:
  "(0::nat) \<in> {0, 1}
   \<and> reduced Batch 0 (prune_chain_dimension Batch
        (JDict [(''name'', JStr ''donor''),
                (''sequences'', JList [JDict [(''protein'', JDict [(''id'', JStr ''A''), (''pairedMsa'', JStr ''p'')])],
                                       JDict [(''protein'', JDict [(''id'', JStr ''B'')])],
                                       JDict [(''ligand'', JDict [(''id'', JStr ''L'')])]])]) 0)
   \<and> prune_chain_dimension Batch (prune_chain_dimension Batch
        (JDict [(''name'', JStr ''donor''),
                (''sequences'', JList [JDict [(''protein'', JDict [(''id'', JStr ''A''), (''pairedMsa'', JStr ''p'')])],
                                       JDict [(''protein'', JDict [(''id'', JStr ''B'')])],
                                       JDict [(''ligand'', JDict [(''id'', JStr ''L'')])]])]) 0) 0
     = prune_chain_dimension Batch
        (JDict [(''name'', JStr ''donor''),
                (''sequences'', JList [JDict [(''protein'', JDict [(''id'', JStr ''A''), (''pairedMsa'', JStr ''p'')])],
                                       JDict [(''protein'', JDict [(''id'', JStr ''B'')])],
                                       JDict [(''ligand'', JDict [(''id'', JStr ''L'')])]])]) 0"
proof -
  let ?d = "JDict [(''name'', JStr ''donor''),
                (''sequences'', JList [JDict [(''protein'', JDict [(''id'', JStr ''A''), (''pairedMsa'', JStr ''p'')])],
                                       JDict [(''protein'', JDict [(''id'', JStr ''B'')])],
                                       JDict [(''ligand'', JDict [(''id'', JStr ''L'')])]])]"
  have r: "reduced Batch 0 (prune_chain_dimension Batch ?d 0)" by code_simp
  have i: "(0::nat) \<in> {0, 1}" by simp
  from prune_fixed_point_iff_reduced [OF i, of Batch ?d] r i show ?thesis by blast
qed

section \<open>Properties of the ChainSelector\<close>

lemma fold_score_step_lt_2:
  "fst best < 2 \<Longrightarrow> list_all (\<lambda>i. i < 2) idxs \<Longrightarrow> fst (fold (score_step ds lst) idxs best) < 2"
  by (induction idxs arbitrary: best) (auto simp: score_step_def Let_def)

lemma fold_candidates_lt_2:
  "fst best < 2 \<Longrightarrow>
   fst (fold (\<lambda>lst best. fold (score_step ds lst) [0 ..< min 2 (length lst)] best) cs best) < 2"
proof (induction cs arbitrary: best)
  case (Cons lst cs)
  have "fst (fold (score_step ds lst) [0 ..< min 2 (length lst)] best) < 2"
    using Cons.prems by (intro fold_score_step_lt_2) (auto simp: list_all_iff)
  then show ?case using Cons.IH by simp
qed simp

lemma choose_chain_index_lt_2: "choose_chain_index_by_sequence sc donor dest_seq < 2"
  unfolding choose_chain_index_by_sequence_def
  by (auto split: option.splits intro: fold_candidates_lt_2)

lemma matches_le: "matches s dest_seq \<le> min (length s) (length dest_seq)"
proof -
  let ?n = "min (length s) (length dest_seq)"
  have "matches s dest_seq \<le> length (zip (take ?n s) (take ?n dest_seq))"
    unfolding matches_def Let_def by (rule length_filter_le)
  then show ?thesis by simp
qed

lemma chain_score_range: "0 \<le> chain_score dest_seq e \<and> chain_score dest_seq e \<le> 100"
proof (cases "seq_from_elem e")
  case None
  then show ?thesis by (simp add: chain_score_def)
next
  case (Some s)
  let ?n = "min (length s) (length dest_seq)"
  have "matches s dest_seq \<le> max 1 ?n"
    using matches_le [of s dest_seq] by (simp add: le_max_iff_disj)
  then have "100 * matches s dest_seq \<le> 100 * max 1 ?n" by simp
  then have "(100 * matches s dest_seq) div max 1 ?n \<le> (100 * max 1 ?n) div max 1 ?n"
    by (rule div_le_mono)
  also have "\<dots> = 100" by simp
  finally have "(100 * matches s dest_seq) div max 1 ?n \<le> 100" .
  then show ?thesis using Some by (simp add: chain_score_def Let_def)
qed

lemma choose_two_chains:
  assumes "dest_seq \<noteq> []" and "is_chain_like_list sc [e0, e1]"
  shows "choose_chain_index_by_sequence sc (JDict [(''chains'', JList [e0, e1])]) (Some dest_seq)
         = (if chain_score dest_seq e1 > chain_score dest_seq e0 then 1 else 0)"
proof -
  have c: "candidates sc (JDict [(''chains'', JList [e0, e1])]) = [[e0, e1]]"
    using assms(2) by (simp add: candidates_def top_candidates_def)
  have r: "[0 ..< min 2 (length [e0, e1])] = [0, Suc 0]" by (simp add: upt_rec)
  have "0 \<le> chain_score dest_seq e0" using chain_score_range by blast
  then show ?thesis
    using assms(1) c r by (simp add: choose_chain_index_by_sequence_def score_step_def Let_def)
qed

text \<open>
  C10. There are a donor document and a destination sequence for which
  \<open>choose_chain_index_by_sequence\<close> does not select the donor chain whose sequence is in a
  substring relation with the destination sequence: that chain scores the fixed 3, the other
  chain, in no substring relation, scores its positional identity, an integer percentage of
  at least 4, and wins. Here chain 1 is the destination sequence itself and chain 0 differs
  from it in the last of 30 residues. Every score is an integer from 0 to 100.
\<close>

theorem chain_selector_substring_outranked:
  "(\<exists>donor dest_seq e0 e1 s0 s1.
      dict_get donor ''chains'' = Some (JList [e0, e1])
    \<and> seq_from_elem e0 = Some s0 \<and> seq_from_elem e1 = Some s1
    \<and> (str_contains dest_seq s1 \<or> str_contains s1 dest_seq)
    \<and> \<not> (str_contains dest_seq s0 \<or> str_contains s0 dest_seq)
    \<and> chain_score dest_seq e1 = 3
    \<and> 4 \<le> chain_score dest_seq e0
    \<and> choose_chain_index_by_sequence Batch donor (Some dest_seq) = 0
    \<and> choose_chain_index_by_sequence Single donor (Some dest_seq) = 0)
   \<and> (\<forall>dest_seq e. 0 \<le> chain_score dest_seq e \<and> chain_score dest_seq e \<le> 100)"
proof -
  let ?s0 = "''AAAAAAAAAAAAAAAAAAAAAAAAAAAAAC''"
  let ?s1 = "''AAAAAAAAAAAAAAAAAAAAAAAAAAAAAA''"
  let ?e0 = "JDict [(''sequence'', JStr ?s0)]"
  let ?e1 = "JDict [(''sequence'', JStr ?s1)]"
  let ?donor = "JDict [(''chains'', JList [?e0, ?e1])]"
  have 1: "dict_get ?donor ''chains'' = Some (JList [?e0, ?e1])" by simp
  have 2: "seq_from_elem ?e0 = Some ?s0" by code_simp
  have 3: "seq_from_elem ?e1 = Some ?s1" by code_simp
  have 4: "str_contains ?s1 ?s1" by code_simp
  have 5: "\<not> (str_contains ?s1 ?s0 \<or> str_contains ?s0 ?s1)" by code_simp
  have 6: "chain_score ?s1 ?e1 = 3" by code_simp
  have 7: "chain_score ?s1 ?e0 = 96" by code_simp
  have 8: "choose_chain_index_by_sequence Batch ?donor (Some ?s1) = 0" by code_simp
  have 9: "choose_chain_index_by_sequence Single ?donor (Some ?s1) = 0" by code_simp
  have "\<exists>donor dest_seq e0 e1 s0 s1.
      dict_get donor ''chains'' = Some (JList [e0, e1])
    \<and> seq_from_elem e0 = Some s0 \<and> seq_from_elem e1 = Some s1
    \<and> (str_contains dest_seq s1 \<or> str_contains s1 dest_seq)
    \<and> \<not> (str_contains dest_seq s0 \<or> str_contains s0 dest_seq)
    \<and> chain_score dest_seq e1 = 3
    \<and> 4 \<le> chain_score dest_seq e0
    \<and> choose_chain_index_by_sequence Batch donor (Some dest_seq) = 0
    \<and> choose_chain_index_by_sequence Single donor (Some dest_seq) = 0"
    apply (rule exI [of _ ?donor], rule exI [of _ ?s1], rule exI [of _ ?e0], rule exI [of _ ?e1],
           rule exI [of _ ?s0], rule exI [of _ ?s1])
    using 1 2 3 4 5 6 7 8 9 by simp
  then show ?thesis using chain_score_range by blast
qed

section \<open>Properties of the KeyDeriver\<close>

lemma dropWhile_digits_nl: "list_all is_digit ds \<Longrightarrow> dropWhile (\<lambda>x. x \<noteq> CHR 0x0A) ds = []"
  by (induction ds) (auto simp: is_digit_def)

lemma re_sub_ptm_suffix_alone:
  assumes "c \<in> set ''KHQ''" "ds \<noteq> []" "list_all is_digit ds"
  shows "re_sub_ptm (CHR ''_'' # c # ds) = []"
proof -
  obtain d ds' where ds: "ds = d # ds'" using assms(2) by (cases ds) auto
  then have "is_digit d" "list_all is_digit ds'" using assms(3) by auto
  then show ?thesis using assms(1) ds by (simp add: dropWhile_digits_nl)
qed

lemma dropWhile_append_suffix:
  assumes "\<forall>x \<in> set suf. P x"
  shows "dropWhile P (xs @ suf) = (if \<forall>x \<in> set xs. P x then [] else dropWhile P xs @ suf)"
  using assms by (induction xs) auto

lemma is_digit_not_us: "is_digit c \<Longrightarrow> c \<noteq> CHR ''_'' \<and> c \<noteq> CHR 0x0A \<and> c \<notin> set ''KHQ''"
  by (auto simp: is_digit_def)

lemma re_sub_ptm_append_suffix:
  assumes "c \<in> set ''KHQ''" "ds \<noteq> []" "list_all is_digit ds"
  shows "re_sub_ptm (stem @ CHR ''_'' # c # ds) = re_sub_ptm stem"
proof (induction stem rule: re_sub_ptm.induct)
  case (1 a b c' rest)
  let ?suf = "CHR ''_'' # c # ds"
  have nl: "\<forall>x \<in> set ?suf. x \<noteq> CHR 0x0A"
    using assms by (auto simp: list_all_iff dest: is_digit_not_us)
  show ?case
  proof (cases "a = CHR ''_'' \<and> b \<in> set ''KHQ'' \<and> is_digit c'")
    case True
    show ?thesis
    proof (cases "\<forall>x \<in> set rest. x \<noteq> CHR 0x0A")
      case all: True
      then have d1: "dropWhile (\<lambda>x. x \<noteq> CHR 0x0A) rest = []" by simp
      have "\<forall>x \<in> set (rest @ ?suf). x \<noteq> CHR 0x0A" using all nl by auto
      then have d2: "dropWhile (\<lambda>x. x \<noteq> CHR 0x0A) (rest @ ?suf) = []"
        by (simp only: dropWhile_eq_Nil_conv)
      have "re_sub_ptm ((a # b # c' # rest) @ ?suf)
            = re_sub_ptm (dropWhile (\<lambda>x. x \<noteq> CHR 0x0A) (rest @ ?suf))"
        using True by simp
      also have "\<dots> = re_sub_ptm (dropWhile (\<lambda>x. x \<noteq> CHR 0x0A) rest)"
        by (simp only: d1 d2)
      also have "\<dots> = re_sub_ptm (a # b # c' # rest)" using True by simp
      finally show ?thesis .
    next
      case False
      then have "dropWhile (\<lambda>x. x \<noteq> CHR 0x0A) (rest @ ?suf)
                 = dropWhile (\<lambda>x. x \<noteq> CHR 0x0A) rest @ ?suf"
        using nl by (simp add: dropWhile_append_suffix)
      then show ?thesis using True "1.IH"(1) by simp
    qed
  next
    case False
    then show ?thesis using "1.IH"(2) by auto
  qed
next
  case (2 a b)
  have "re_sub_ptm (CHR ''_'' # c # ds) = []" by (rule re_sub_ptm_suffix_alone [OF assms])
  moreover obtain d ds' where "ds = d # ds'" using assms(2) by (cases ds) auto
  ultimately show ?case using assms(1) by (auto simp: is_digit_def)
next
  case (3 a)
  have "re_sub_ptm (CHR ''_'' # c # ds) = []" by (rule re_sub_ptm_suffix_alone [OF assms])
  moreover obtain d ds' where "ds = d # ds'" using assms(2) by (cases ds) auto
  ultimately show ?case using assms(1) by (auto simp: is_digit_def)
next
  case 4
  show ?case using re_sub_ptm_suffix_alone [OF assms] by simp
qed

lemma re_sub_ptm_no_underscore: "CHR ''_'' \<notin> set s \<Longrightarrow> re_sub_ptm s = s"
  by (induction s rule: re_sub_ptm.induct) auto

lemma re_sub_ptm_noM: "CHR ''_'' \<notin> set stem \<Longrightarrow> re_sub_ptm (stem @ ''_noM'') = stem @ ''_noM''"
proof (induction stem rule: re_sub_ptm.induct)
  case (1 a b c rest)
  then show ?case by auto
qed (auto simp: is_digit_def)

lemma parse_entries_e2:
  assumes "parse_entries job = Inr (e1, e2)"
  shows "CHR ''_'' \<notin> set e2 \<or> (\<exists>stem. CHR ''_'' \<notin> set stem \<and> e2 = stem @ ''_noM'')"
proof -
  obtain a rest where sp: "split_first CHR ''-'' job = Some (a, rest)"
    using assms by (auto simp: parse_entries_def split: option.splits)
  show ?thesis
  proof (cases "str_contains ''_noM'' rest")
    case True
    then have "e2 = takeWhile (\<lambda>c. c \<noteq> CHR ''_'') rest @ ''_noM''"
      using assms sp by (auto simp: parse_entries_def Let_def split: if_splits)
    moreover have "CHR ''_'' \<notin> set (takeWhile (\<lambda>c. c \<noteq> CHR ''_'') rest)"
      by (auto dest: set_takeWhileD)
    ultimately show ?thesis by blast
  next
    case False
    then have "e2 = takeWhile (\<lambda>c. c \<noteq> CHR ''_'' \<and> c \<noteq> CHR ''-'') rest"
      using assms sp by (auto simp: parse_entries_def Let_def split: if_splits)
    then have "CHR ''_'' \<notin> set e2" by (auto dest: set_takeWhileD)
    then show ?thesis by blast
  qed
qed

lemma base_key_parse_entries:
  "parse_entries job = Inr (e1, e2) \<Longrightarrow> base_key e1 e2 = e1 @ ''-'' @ e2"
  using parse_entries_e2 [of job e1 e2]
  by (auto simp: base_key_def re_sub_ptm_no_underscore re_sub_ptm_noM)

text \<open>
  C9. \<open>base_key\<close> strips a trailing modification suffix, an underscore, one class letter
  K, H or Q and digits, from the second entry: the key of the suffixed entry is the key of
  its stem, and \<^verbatim>\<open>entry1-stem\<close> for a stem without underscore. It does not strip the
  no-modification marker behind such a stem, and it strips nothing from a pair that
  \<open>parse_entries\<close> derived from a job identifier. \<^verbatim>\<open>base_key("X", "Y_K123")\<close> is
  \<^verbatim>\<open>"X-Y"\<close> and \<^verbatim>\<open>base_key("X", "Y_noM")\<close> is \<^verbatim>\<open>"X-Y_noM"\<close>.
\<close>

theorem base_key_strips_ptm_suffix:
  "base_key ''X'' ''Y_K123'' = ''X-Y''
   \<and> base_key ''X'' ''Y_noM'' = ''X-Y_noM''
   \<and> (c \<in> set ''KHQ'' \<and> ds \<noteq> [] \<and> list_all is_digit ds \<longrightarrow>
        base_key e1 (stem @ ''_'' @ [c] @ ds) = base_key e1 stem
        \<and> (CHR ''_'' \<notin> set stem \<longrightarrow> base_key e1 (stem @ ''_'' @ [c] @ ds) = e1 @ ''-'' @ stem))
   \<and> (CHR ''_'' \<notin> set stem \<longrightarrow> base_key e1 (stem @ ''_noM'') = e1 @ ''-'' @ stem @ ''_noM'')
   \<and> (parse_entries job = Inr (entry1, entry2) \<longrightarrow> base_key entry1 entry2 = entry1 @ ''-'' @ entry2)"
proof -
  have 1: "base_key ''X'' ''Y_K123'' = ''X-Y''" by (simp add: base_key_def is_digit_def)
  have 2: "base_key ''X'' ''Y_noM'' = ''X-Y_noM''" by (simp add: base_key_def)
  have 3: "base_key e1 (stem @ ''_'' @ [c] @ ds) = base_key e1 stem"
    if "c \<in> set ''KHQ''" "ds \<noteq> []" "list_all is_digit ds"
    using re_sub_ptm_append_suffix [OF that] by (simp add: base_key_def)
  have 4: "base_key e1 stem = e1 @ ''-'' @ stem" if "CHR ''_'' \<notin> set stem"
    using that by (simp add: base_key_def re_sub_ptm_no_underscore)
  have 5: "base_key e1 (stem @ ''_noM'') = e1 @ ''-'' @ stem @ ''_noM''" if "CHR ''_'' \<notin> set stem"
    using re_sub_ptm_noM [OF that] by (simp add: base_key_def)
  show ?thesis using 1 2 3 4 5 base_key_parse_entries by metis
qed

theorem base_key_strips_ptm_suffix_witness:
  "CHR ''H'' \<in> set ''KHQ'' \<and> ''27'' \<noteq> [] \<and> list_all is_digit ''27''
   \<and> CHR ''_'' \<notin> set ''P68431''
   \<and> parse_entries ''NSD2-P68431_noM_v2'' = Inr (''NSD2'', ''P68431_noM'')
   \<and> base_key ''NSD2'' (''P68431'' @ ''_'' @ [CHR ''H''] @ ''27'') = ''NSD2-P68431''
   \<and> base_key ''NSD2'' (''P68431'' @ ''_noM'') = ''NSD2-P68431_noM''
   \<and> base_key ''NSD2'' ''P68431_noM'' = ''NSD2-P68431_noM''"
proof -
  have h: "CHR ''H'' \<in> set ''KHQ'' \<and> ''27'' \<noteq> [] \<and> list_all is_digit ''27''"
    by (simp add: is_digit_def)
  have u: "CHR ''_'' \<notin> set ''P68431''" by simp
  have p: "parse_entries ''NSD2-P68431_noM_v2'' = Inr (''NSD2'', ''P68431_noM'')"
    by (simp add: parse_entries_def split_first_def startswith_def)
  from base_key_strips_ptm_suffix
    [of "CHR ''H''" "''27''" "''NSD2''" "''P68431''" "''NSD2-P68431_noM_v2''" "''NSD2''" "''P68431_noM''"]
    h u p
  have "base_key ''NSD2'' (''P68431'' @ ''_'' @ [CHR ''H''] @ ''27'') = ''NSD2'' @ ''-'' @ ''P68431''
      \<and> base_key ''NSD2'' (''P68431'' @ ''_noM'') = ''NSD2'' @ ''-'' @ ''P68431'' @ ''_noM''
      \<and> base_key ''NSD2'' ''P68431_noM'' = ''NSD2'' @ ''-'' @ ''P68431_noM''"
    by blast
  then show ?thesis using h u p by simp
qed

section \<open>Properties of the main pass\<close>

lemma main_pass_append:
  "main_pass dry (xs @ ys) st =
     (case main_pass dry xs st of Inl err \<Rightarrow> Inl err | Inr st' \<Rightarrow> main_pass dry ys st')"
  by (induction xs arbitrary: st) (auto split: sum.splits)

lemma row_step_miss:
  assumes "miss_row (job, env)"
  shows "\<exists>bkey. job_base_key job = Some bkey \<and> row_step dry (job, env) st = Inr (triage job bkey st)"
proof -
  from assms obtain bkey where b: "job_base_key job = Some bkey"
    by (auto simp: miss_row_def)
  then obtain e1 e2 where p: "parse_entries job = Inr (e1, e2)" and k: "bkey = base_key e1 e2"
    by (auto simp: job_base_key_def split: sum.splits)
  show ?thesis using assms b p k by (simp add: row_step_def miss_row_def)
qed

lemma first_of_key_snoc: "n < length jobs \<Longrightarrow> first_of_key (jobs @ [j]) n = first_of_key jobs n"
  by (simp add: first_of_key_def nth_append)

lemma first_of_key_last: "first_of_key (jobs @ [j]) (length jobs) = (job_base_key j \<notin> job_base_key ` set jobs)"
  by (simp add: first_of_key_def)

lemma firsts_snoc:
  "map (\<lambda>n. (jobs @ [j]) ! n) (filter P [0 ..< length jobs]) = map (\<lambda>n. jobs ! n) (filter P [0 ..< length jobs])"
  by (rule map_cong) (auto simp: nth_append)

lemma filter_first_snoc:
  "filter (first_of_key (jobs @ [j])) [0 ..< length jobs] = filter (first_of_key jobs) [0 ..< length jobs]"
  by (rule filter_cong) (auto simp: first_of_key_snoc)

lemma filter_not_first_snoc:
  "filter (\<lambda>n. \<not> first_of_key (jobs @ [j]) n) [0 ..< length jobs]
   = filter (\<lambda>n. \<not> first_of_key jobs n) [0 ..< length jobs]"
  by (rule filter_cong) (auto simp: first_of_key_snoc)

lemma main_pass_miss:
  assumes "list_all miss_row rows"
  shows "main_pass dry rows initial_state =
         Inr (initial_state
               \<lparr>msa_array := map (\<lambda>n. map fst rows ! n) (filter (first_of_key (map fst rows)) [0 ..< length rows]),
                waiting := map (\<lambda>n. map fst rows ! n) (filter (\<lambda>n. \<not> first_of_key (map fst rows) n) [0 ..< length rows]),
                seen_base := {k. Some k \<in> job_base_key ` set (map fst rows)}\<rparr>)"
  using assms
proof (induction rows rule: rev_induct)
  case Nil
  show ?case by (simp add: initial_state_def)
next
  case (snoc row rows)
  obtain job env where row: "row = (job, env)" by (cases row)
  let ?jobs = "map fst rows"
  let ?st = "initial_state
               \<lparr>msa_array := map (\<lambda>n. ?jobs ! n) (filter (first_of_key ?jobs) [0 ..< length rows]),
                waiting := map (\<lambda>n. ?jobs ! n) (filter (\<lambda>n. \<not> first_of_key ?jobs n) [0 ..< length rows]),
                seen_base := {k. Some k \<in> job_base_key ` set ?jobs}\<rparr>"
  have IH: "main_pass dry rows initial_state = Inr ?st" using snoc by simp
  from snoc.prems row have "miss_row (job, env)" by simp
  then obtain bkey where b: "job_base_key job = Some bkey"
    and step: "row_step dry (job, env) ?st = Inr (triage job bkey ?st)"
    using row_step_miss by blast
  have len: "length rows = length ?jobs" by simp
  have fst_eq: "first_of_key (?jobs @ [job]) (length rows) = (bkey \<notin> seen_base ?st)"
    using b first_of_key_last [of ?jobs job] by (simp add: image_iff)
  have "main_pass dry (rows @ [row]) initial_state = Inr (triage job bkey ?st)"
    using IH step row by (simp add: main_pass_append)
  moreover have "triage job bkey ?st =
      initial_state
       \<lparr>msa_array := map (\<lambda>n. map fst (rows @ [row]) ! n)
                        (filter (first_of_key (map fst (rows @ [row]))) [0 ..< length (rows @ [row])]),
        waiting := map (\<lambda>n. map fst (rows @ [row]) ! n)
                        (filter (\<lambda>n. \<not> first_of_key (map fst (rows @ [row])) n) [0 ..< length (rows @ [row])]),
        seen_base := {k. Some k \<in> job_base_key ` set (map fst (rows @ [row]))}\<rparr>"
  proof (cases "bkey \<in> seen_base ?st")
    case True
    then have nf: "\<not> first_of_key (?jobs @ [job]) (length rows)" using fst_eq by simp
    have sb: "{k. Some k \<in> job_base_key ` set (map fst (rows @ [row]))} = seen_base ?st"
      using True b row by auto
    show ?thesis
      using True nf sb row
            firsts_snoc [of ?jobs job] filter_first_snoc [of ?jobs job] filter_not_first_snoc [of ?jobs job]
      by (simp add: triage_def initial_state_def nth_append)
  next
    case False
    then have f: "first_of_key (?jobs @ [job]) (length rows)" using fst_eq by simp
    have sb: "{k. Some k \<in> job_base_key ` set (map fst (rows @ [row]))} = insert bkey (seen_base ?st)"
      using b row by auto
    show ?thesis
      using False f sb row
            firsts_snoc [of ?jobs job] filter_first_snoc [of ?jobs job] filter_not_first_snoc [of ?jobs job]
      by (simp add: triage_def initial_state_def nth_append)
  qed
  ultimately show ?case by simp
qed

lemma distinct_first_keys:
  "distinct (map job_base_key (map (\<lambda>n. jobs ! n) (filter (first_of_key jobs) [0 ..< length jobs])))"
proof -
  have inj: "inj_on (\<lambda>n. job_base_key (jobs ! n)) (set (filter (first_of_key jobs) [0 ..< length jobs]))"
  proof (rule inj_onI)
    fix n m
    assume n: "n \<in> set (filter (first_of_key jobs) [0 ..< length jobs])"
       and m: "m \<in> set (filter (first_of_key jobs) [0 ..< length jobs])"
       and eq: "job_base_key (jobs ! n) = job_base_key (jobs ! m)"
    have earlier: False if lt: "i < j" and j: "j < length jobs" and fj: "first_of_key jobs j"
      and e: "job_base_key (jobs ! i) = job_base_key (jobs ! j)" for i j
    proof -
      have "jobs ! i \<in> set (take j jobs)"
        using lt j by (auto simp: in_set_conv_nth intro!: exI [of _ i])
      then have "job_base_key (jobs ! j) \<in> job_base_key ` set (take j jobs)"
        using e by (metis imageI)
      then show False using fj by (simp add: first_of_key_def)
    qed
    show "n = m"
    proof (rule ccontr)
      assume "n \<noteq> m"
      then consider "n < m" | "m < n" by linarith
      then show False
      proof cases
        case 1 then show False using earlier [of n m] m eq by auto
      next
        case 2 then show False using earlier [of m n] n eq by auto
      qed
    qed
  qed
  have "distinct (map (\<lambda>n. job_base_key (jobs ! n)) (filter (first_of_key jobs) [0 ..< length jobs]))"
    using inj by (simp add: distinct_map)
  then show ?thesis by (simp add: comp_def)
qed

text \<open>
  C5. A batch processed in input order in which every job identifier parses and every job has
  a job directory, is no single-protein-ligand job, has no \<^verbatim>\<open>output_msa\<close> directory and no
  donor candidate: the main pass returns, the generation queue holds, in input order, the
  jobs whose base key no earlier job has, the waiting queue holds all the other jobs, and
  the base keys of the generation queue are pairwise distinct.
\<close>

theorem triage_first_come:
  assumes "list_all miss_row rows"
  shows "\<exists>st. main_pass dry rows initial_state = Inr st
          \<and> msa_array st = map (\<lambda>n. map fst rows ! n)
                               (filter (first_of_key (map fst rows)) [0 ..< length rows])
          \<and> waiting st = map (\<lambda>n. map fst rows ! n)
                             (filter (\<lambda>n. \<not> first_of_key (map fst rows) n) [0 ..< length rows])
          \<and> distinct (map job_base_key (msa_array st))"
  using main_pass_miss [OF assms, of dry] distinct_first_keys [of "map fst rows"] by simp

theorem triage_first_come_witness:
  "list_all miss_row
     [(''A-B'', \<lparr>job_dir = True, out_dir = False, cands = [],
         fresh = Doc (JDict [(''sequences'', JList [JDict [(''protein'', JNull)], JDict [(''protein'', JNull)]])])\<rparr>),
      (''A-B_K1'', \<lparr>job_dir = True, out_dir = False, cands = [],
         fresh = Doc (JDict [(''sequences'', JList [JDict [(''protein'', JNull)], JDict [(''protein'', JNull)]])])\<rparr>),
      (''A-B_K2'', \<lparr>job_dir = True, out_dir = False, cands = [],
         fresh = Doc (JDict [(''sequences'', JList [JDict [(''protein'', JNull)], JDict [(''protein'', JNull)]])])\<rparr>)]
   \<and> (\<exists>st. main_pass False
           [(''A-B'', \<lparr>job_dir = True, out_dir = False, cands = [],
         fresh = Doc (JDict [(''sequences'', JList [JDict [(''protein'', JNull)], JDict [(''protein'', JNull)]])])\<rparr>),
            (''A-B_K1'', \<lparr>job_dir = True, out_dir = False, cands = [],
         fresh = Doc (JDict [(''sequences'', JList [JDict [(''protein'', JNull)], JDict [(''protein'', JNull)]])])\<rparr>),
            (''A-B_K2'', \<lparr>job_dir = True, out_dir = False, cands = [],
         fresh = Doc (JDict [(''sequences'', JList [JDict [(''protein'', JNull)], JDict [(''protein'', JNull)]])])\<rparr>)]
           initial_state = Inr st
         \<and> msa_array st = [''A-B''] \<and> waiting st = [''A-B_K1'', ''A-B_K2''])"
proof -
  let ?env = "\<lparr>job_dir = True, out_dir = False, cands = [],
         fresh = Doc (JDict [(''sequences'', JList [JDict [(''protein'', JNull)], JDict [(''protein'', JNull)]])])\<rparr>"
  let ?rows = "[(''A-B'', ?env), (''A-B_K1'', ?env), (''A-B_K2'', ?env)]"
  have h: "list_all miss_row ?rows" by code_simp
  have f: "map (\<lambda>n. map fst ?rows ! n) (filter (first_of_key (map fst ?rows)) [0 ..< length ?rows])
           = [''A-B'']" by code_simp
  have w: "map (\<lambda>n. map fst ?rows ! n)
             (filter (\<lambda>n. \<not> first_of_key (map fst ?rows) n) [0 ..< length ?rows])
           = [''A-B_K1'', ''A-B_K2'']" by code_simp
  from triage_first_come [OF h, of False] f w h show ?thesis by metis
qed

lemma parse_entries_no_separator: "CHR ''-'' \<notin> set job \<Longrightarrow> parse_entries job = Inl ValueError"
  by (simp add: parse_entries_def split_first_def)

lemma main_pass_aborts:
  assumes "CHR ''-'' \<notin> set job" and "main_pass dry pre st = Inr st'"
  shows "main_pass dry (pre @ (job, env) # post) st = Inl ValueError"
  using assms by (simp add: main_pass_append row_step_def parse_entries_no_separator)

text \<open>
  C6 (the code at a failing input). A table of three jobs, the second of which has no hyphen:
  \<open>parse_entries\<close> raises \<^verbatim>\<open>ValueError\<close> for it, outside any \<^verbatim>\<open>try\<close>, and the main pass
  ends with that exception instead of going on to the third job.
\<close>

theorem malformed_identifier_aborts_batch:
  "parse_entries ''nohyphen'' = Inl ValueError
   \<and> main_pass False
        [(''A-B'', \<lparr>job_dir = True, out_dir = False, cands = [],
         fresh = Doc (JDict [(''sequences'', JList [JDict [(''protein'', JNull)], JDict [(''protein'', JNull)]])])\<rparr>),
         (''nohyphen'', \<lparr>job_dir = True, out_dir = False, cands = [],
         fresh = Doc (JDict [(''sequences'', JList [JDict [(''protein'', JNull)], JDict [(''protein'', JNull)]])])\<rparr>),
         (''C-D'', \<lparr>job_dir = True, out_dir = False, cands = [],
         fresh = Doc (JDict [(''sequences'', JList [JDict [(''protein'', JNull)], JDict [(''protein'', JNull)]])])\<rparr>)]
        initial_state = Inl ValueError"
  by code_simp

section \<open>Properties of the MergeEngine\<close>

lemma map_of_dict_set: "map_of (dict_set kvs k v) k' = (if k' = k then Some v else map_of kvs k')"
  by (induction kvs) auto

lemma keys_dict_set: "map fst (dict_set kvs k v) = (if k \<in> set (map fst kvs) then map fst kvs else map fst kvs @ [k])"
  by (induction kvs) (auto simp: rev_image_eqI)

lemma copy_fields_core:
  "k \<in> set CORE_KEYS \<Longrightarrow> map_of (copy_fields donor_fields protein) k = map_of protein k"
  unfolding copy_fields_def
  by (induction donor_fields arbitrary: protein) (auto simp: map_of_dict_set)

lemma copy_fields_other:
  "k \<notin> set CORE_KEYS \<Longrightarrow> distinct (map fst donor_fields) \<Longrightarrow>
   map_of (copy_fields donor_fields protein) k
     = (case map_of donor_fields k of Some v \<Rightarrow> Some v | None \<Rightarrow> map_of protein k)"
  unfolding copy_fields_def
proof (induction donor_fields arbitrary: protein)
  case (Cons kv rest)
  obtain k0 v0 where kv: "kv = (k0, v0)" by (cases kv)
  have nin: "map_of rest k0 = None" using Cons.prems(2) kv by (simp add: map_of_eq_None_iff)
  show ?case
    using Cons.IH [OF Cons.prems(1), of "if k0 \<notin> set CORE_KEYS then dict_set protein k0 v0 else protein"]
          Cons.prems kv nin
    by (auto simp: map_of_dict_set split: option.splits)
qed simp

lemma merge_entries_all2:
  "merge_entries sc ents = Inr ents' \<Longrightarrow> list_all2 (\<lambda>e e'. merge_entry sc e = Inr e') ents ents'"
  by (induction ents arbitrary: ents') (auto split: sum.splits)

lemma merge_entry_cases:
  assumes "merge_entry sc ent = Inr ent'"
  shows "(dict_get ent ''protein'' = None \<and> ent' = ent)
       \<or> (\<exists>entry protein cid donor_fields.
             ent = JDict entry \<and> map_of entry ''protein'' = Some (JDict protein)
           \<and> map_of protein ''id'' = Some cid \<and> key_get sc cid = Some (JDict donor_fields)
           \<and> ent' = JDict (dict_set entry ''protein'' (JDict (copy_fields donor_fields protein))))"
proof (cases "py_in ''protein'' ent")
  case (Inl err)
  then show ?thesis using assms by (simp add: merge_entry_def)
next
  case (Inr b)
  show ?thesis
  proof (cases b)
    case False
    then have "ent' = ent" using assms Inr by (simp add: merge_entry_def)
    moreover have "dict_get ent ''protein'' = None"
      using Inr False by (cases ent) (auto simp: map_of_eq_None_iff)
    ultimately show ?thesis by simp
  next
    case True
    then obtain p where p: "py_getitem ent ''protein'' = Inr p"
      using assms Inr by (auto simp: merge_entry_def split: sum.splits)
    then obtain entry where e: "ent = JDict entry" and pe: "map_of entry ''protein'' = Some p"
      by (cases ent) (auto split: option.splits)
    obtain cid where c: "py_getitem p ''id'' = Inr cid"
      using assms Inr True p by (auto simp: merge_entry_def split: sum.splits)
    then obtain protein where pp: "p = JDict protein" and pc: "map_of protein ''id'' = Some cid"
      by (cases p) (auto split: option.splits)
    have h: "hashable cid"
      using assms Inr True p c by (auto simp: merge_entry_def split: if_splits)
    obtain dp where kg: "key_get sc cid = Some dp"
      using assms Inr True p c h by (auto simp: merge_entry_def split: option.splits)
    obtain donor_fields where dp: "dp = JDict donor_fields"
      using assms Inr True p c h kg e pp by (cases dp) (auto simp: merge_entry_def)
    have "ent' = JDict (dict_set entry ''protein'' (JDict (copy_fields donor_fields protein)))"
      using assms Inr True p c h kg e pp dp by (simp add: merge_entry_def)
    then show ?thesis using e pe pp pc kg dp by blast
  qed
qed

lemma merge_doc_cases:
  assumes "merge_doc s d = Inr out"
  shows "\<exists>skv dkv s_seq d_seq sc ents ents' v.
           s = JDict skv \<and> d = JDict dkv
         \<and> map_of skv ''sequences'' = Some s_seq \<and> map_of dkv ''sequences'' = Some d_seq
         \<and> chain_map s_seq = Inr sc \<and> py_iter d_seq = Inr ents
         \<and> merge_entries sc ents = Inr ents'
         \<and> out = JDict (dict_set (if is_list d_seq then dict_set dkv ''sequences'' (JList ents') else dkv)
                                  ''version'' v)"
proof -
  obtain s_seq where 1: "py_getitem s ''sequences'' = Inr s_seq"
    using assms by (auto simp: merge_doc_def split: sum.splits)
  obtain sc where 2: "chain_map s_seq = Inr sc"
    using assms 1 by (auto simp: merge_doc_def split: sum.splits)
  obtain d_seq where 3: "py_getitem d ''sequences'' = Inr d_seq"
    using assms 1 2 by (auto simp: merge_doc_def split: sum.splits)
  obtain dc where 4: "chain_map d_seq = Inr dc"
    using assms 1 2 3 by (auto simp: merge_doc_def split: sum.splits)
  have 5: "filter (\<lambda>(cid, p). key_get sc cid = None) dc = []"
    using assms 1 2 3 4 by (auto simp: merge_doc_def split: if_splits)
  obtain ents where 6: "py_iter d_seq = Inr ents"
    using assms 1 2 3 4 5 by (auto simp: merge_doc_def split: sum.splits)
  obtain ents' where 7: "merge_entries sc ents = Inr ents'"
    using assms 1 2 3 4 5 6 by (auto simp: merge_doc_def split: sum.splits)
  obtain skv where s: "s = JDict skv" and ss: "map_of skv ''sequences'' = Some s_seq"
    using 1 by (cases s) (auto split: option.splits)
  obtain dkv where d: "d = JDict dkv" and ds: "map_of dkv ''sequences'' = Some d_seq"
    using 3 by (cases d) (auto split: option.splits)
  let ?dkv' = "if is_list d_seq then dict_set dkv ''sequences'' (JList ents') else dkv"
  obtain v where "out = JDict (dict_set ?dkv' ''version'' v)"
    using assms 1 2 3 4 5 6 7 s d by (auto simp: merge_doc_def Let_def split: sum.splits)
  then show ?thesis using s d ss ds 2 6 7 by blast
qed

lemma wf_json_map_of: "wf_json (JDict kvs) \<Longrightarrow> map_of kvs k = Some v \<Longrightarrow> wf_json v"
  by (auto simp: list_all_iff dest!: map_of_SomeD)

lemma wf_json_py_getitem: "wf_json x \<Longrightarrow> py_getitem x k = Inr v \<Longrightarrow> wf_json v"
  by (cases x) (auto split: option.splits dest: wf_json_map_of simp del: wf_json.simps)

lemma wf_json_py_iter: "wf_json x \<Longrightarrow> py_iter x = Inr es \<Longrightarrow> list_all wf_json es"
  by (cases x) (auto simp: list_all_iff)

lemma key_put_values: "(k', v') \<in> set (key_put m k v) \<Longrightarrow> v' = v \<or> (\<exists>k''. (k'', v') \<in> set m)"
  by (induction m) (auto split: if_splits)

lemma key_get_values: "key_get m k = Some v \<Longrightarrow> \<exists>k'. (k', v) \<in> set m"
  by (induction m) (auto split: if_splits)

lemma chain_map_loop_wf:
  assumes "chain_map_loop es acc = Inr sc" "list_all wf_json es" "\<forall>(k, v) \<in> set acc. wf_json v"
  shows "\<forall>(k, v) \<in> set sc. wf_json v"
  using assms
proof (induction es arbitrary: acc)
  case (Cons e es)
  show ?case
  proof (cases "py_in ''protein'' e")
    case (Inl err)
    then show ?thesis using Cons.prems by simp
  next
    case (Inr b)
    show ?thesis
    proof (cases b)
      case False
      then show ?thesis using Cons Inr by simp
    next
      case True
      then obtain p cid where p: "py_getitem e ''protein'' = Inr p"
        and c: "py_getitem p ''id'' = Inr cid"
        and rest: "chain_map_loop es (key_put acc cid p) = Inr sc"
        using Cons.prems(1) Inr by (auto split: sum.splits if_splits)
      have "wf_json p" using Cons.prems(2) p by (auto dest: wf_json_py_getitem)
      then have "\<forall>(k, v) \<in> set (key_put acc cid p). wf_json v"
        using Cons.prems(3) by (auto dest!: key_put_values)
      then show ?thesis using Cons.IH [OF rest] Cons.prems(2) by simp
    qed
  qed
qed simp

lemma chain_map_wf:
  assumes "chain_map seq = Inr sc" "wf_json seq" "key_get sc cid = Some v"
  shows "wf_json v"
proof -
  obtain es where es: "py_iter seq = Inr es" and l: "chain_map_loop es [] = Inr sc"
    using assms(1) by (auto simp: chain_map_def split: sum.splits)
  have "\<forall>(k, v) \<in> set sc. wf_json v"
    using chain_map_loop_wf [OF l] wf_json_py_iter [OF assms(2) es] by simp
  then show ?thesis using key_get_values [OF assms(3)] by auto
qed

text \<open>
  C7. For every donor and destination document that \<open>merge_json\<close> accepts, each entry of the
  destination's sequences list is at its place in the merged document; an entry without a
  protein is unchanged; in a protein entry the fields \<^verbatim>\<open>id\<close>, \<^verbatim>\<open>sequence\<close> and
  \<^verbatim>\<open>modifications\<close> of the protein are what they were, present or absent, every other
  field of the protein is the donor's field of that name when the donor chain with the
  same id has one and the destination's otherwise, and the other fields of the entry are
  unchanged.
\<close>

theorem merge_keeps_core_fields:
  assumes "merge_doc s d = Inr out"
      and "wf_json s"
      and "dict_get d ''sequences'' = Some (JList ents)"
  shows "\<exists>ents' s_seq sc.
           dict_get out ''sequences'' = Some (JList ents')
         \<and> length ents' = length ents
         \<and> dict_get s ''sequences'' = Some s_seq \<and> chain_map s_seq = Inr sc
         \<and> (\<forall>n < length ents.
               case dict_get (ents ! n) ''protein'' of
                 None \<Rightarrow> ents' ! n = ents ! n
               | Some p \<Rightarrow>
                   (\<exists>p' cid donor_p.
                       dict_get (ents' ! n) ''protein'' = Some p'
                     \<and> (\<forall>k \<in> set CORE_KEYS. dict_get p' k = dict_get p k)
                     \<and> dict_get p ''id'' = Some cid \<and> key_get sc cid = Some donor_p
                     \<and> (\<forall>k. k \<notin> set CORE_KEYS \<longrightarrow>
                            dict_get p' k = (case dict_get donor_p k of
                                               Some v \<Rightarrow> Some v
                                             | None \<Rightarrow> dict_get p k))
                     \<and> (\<forall>k. k \<noteq> ''protein'' \<longrightarrow> dict_get (ents' ! n) k = dict_get (ents ! n) k)))"
proof -
  from merge_doc_cases [OF assms(1)]
  obtain skv dkv s_seq d_seq sc es ents' v where s: "s = JDict skv" and d: "d = JDict dkv"
    and ss: "map_of skv ''sequences'' = Some s_seq" and ds: "map_of dkv ''sequences'' = Some d_seq"
    and cm: "chain_map s_seq = Inr sc" and it: "py_iter d_seq = Inr es"
    and me: "merge_entries sc es = Inr ents'"
    and out: "out = JDict (dict_set (if is_list d_seq then dict_set dkv ''sequences'' (JList ents') else dkv)
                                    ''version'' v)"
    by blast
  have dseq: "d_seq = JList ents" using assms(3) d ds by simp
  then have es: "es = ents" using it by simp
  have o: "dict_get out ''sequences'' = Some (JList ents')"
    using out dseq by (simp add: map_of_dict_set)
  have all2: "list_all2 (\<lambda>e e'. merge_entry sc e = Inr e') ents ents'"
    using merge_entries_all2 [OF me] es by simp
  then have len: "length ents' = length ents" by (simp add: list_all2_lengthD)
  have wfs: "wf_json s_seq" using assms(2) s ss wf_json_map_of by blast
  have entry: "case dict_get (ents ! n) ''protein'' of
                 None \<Rightarrow> ents' ! n = ents ! n
               | Some p \<Rightarrow>
                   (\<exists>p' cid donor_p.
                       dict_get (ents' ! n) ''protein'' = Some p'
                     \<and> (\<forall>k \<in> set CORE_KEYS. dict_get p' k = dict_get p k)
                     \<and> dict_get p ''id'' = Some cid \<and> key_get sc cid = Some donor_p
                     \<and> (\<forall>k. k \<notin> set CORE_KEYS \<longrightarrow>
                            dict_get p' k = (case dict_get donor_p k of
                                               Some v \<Rightarrow> Some v
                                             | None \<Rightarrow> dict_get p k))
                     \<and> (\<forall>k. k \<noteq> ''protein'' \<longrightarrow> dict_get (ents' ! n) k = dict_get (ents ! n) k))"
    if n: "n < length ents" for n
  proof -
    have m: "merge_entry sc (ents ! n) = Inr (ents' ! n)"
      using list_all2_nthD [OF all2 n] .
    from merge_entry_cases [OF m] show ?thesis
    proof
      assume "dict_get (ents ! n) ''protein'' = None \<and> ents' ! n = ents ! n"
      then show ?thesis by simp
    next
      assume "\<exists>entry protein cid donor_fields.
             ents ! n = JDict entry \<and> map_of entry ''protein'' = Some (JDict protein)
           \<and> map_of protein ''id'' = Some cid \<and> key_get sc cid = Some (JDict donor_fields)
           \<and> ents' ! n = JDict (dict_set entry ''protein'' (JDict (copy_fields donor_fields protein)))"
      then obtain entry protein cid donor_fields where e: "ents ! n = JDict entry"
        and p: "map_of entry ''protein'' = Some (JDict protein)"
        and c: "map_of protein ''id'' = Some cid"
        and k: "key_get sc cid = Some (JDict donor_fields)"
        and e': "ents' ! n = JDict (dict_set entry ''protein'' (JDict (copy_fields donor_fields protein)))"
        by blast
      have "wf_json (JDict donor_fields)" using chain_map_wf [OF cm wfs k] .
      then have dist: "distinct (map fst donor_fields)" by simp
      have 1: "dict_get (ents' ! n) ''protein'' = Some (JDict (copy_fields donor_fields protein))"
        using e' by (simp add: map_of_dict_set)
      have 2: "\<forall>k \<in> set CORE_KEYS. dict_get (JDict (copy_fields donor_fields protein)) k
                                      = dict_get (JDict protein) k"
        by (simp add: copy_fields_core)
      have 3: "\<forall>k. k \<notin> set CORE_KEYS \<longrightarrow>
                 dict_get (JDict (copy_fields donor_fields protein)) k
                 = (case dict_get (JDict donor_fields) k of
                      Some v \<Rightarrow> Some v
                    | None \<Rightarrow> dict_get (JDict protein) k)"
      proof (intro allI impI)
        fix k assume nc: "k \<notin> set CORE_KEYS"
        show "dict_get (JDict (copy_fields donor_fields protein)) k
                 = (case dict_get (JDict donor_fields) k of
                      Some v \<Rightarrow> Some v
                    | None \<Rightarrow> dict_get (JDict protein) k)"
          using copy_fields_other [OF nc dist, of protein] by (simp cong: option.case_cong)
      qed
      have 4: "\<forall>k. k \<noteq> ''protein'' \<longrightarrow> dict_get (ents' ! n) k = dict_get (ents ! n) k"
        using e e' by (simp add: map_of_dict_set)
      have 5: "dict_get (JDict protein) ''id'' = Some cid" using c by simp
      have dp: "dict_get (ents ! n) ''protein'' = Some (JDict protein)" using e p by simp
      have "\<exists>p' cid donor_p.
                       dict_get (ents' ! n) ''protein'' = Some p'
                     \<and> (\<forall>k \<in> set CORE_KEYS. dict_get p' k = dict_get (JDict protein) k)
                     \<and> dict_get (JDict protein) ''id'' = Some cid \<and> key_get sc cid = Some donor_p
                     \<and> (\<forall>k. k \<notin> set CORE_KEYS \<longrightarrow>
                            dict_get p' k = (case dict_get donor_p k of
                                               Some v \<Rightarrow> Some v
                                             | None \<Rightarrow> dict_get (JDict protein) k))
                     \<and> (\<forall>k. k \<noteq> ''protein'' \<longrightarrow> dict_get (ents' ! n) k = dict_get (ents ! n) k)"
        apply (rule exI [of _ "JDict (copy_fields donor_fields protein)"])
        apply (rule exI [of _ cid])
        apply (rule exI [of _ "JDict donor_fields"])
        apply (intro conjI)
             apply (rule 1)
            apply (rule 2)
           apply (rule 5)
          apply (rule k)
         apply (rule 3)
        apply (rule 4)
        done
      then show ?thesis by (simp only: dp option.case)
    qed
  qed
  have gs: "dict_get s ''sequences'' = Some s_seq" using s ss by simp
  show ?thesis
    apply (rule exI [of _ ents'])
    apply (rule exI [of _ s_seq])
    apply (rule exI [of _ sc])
    apply (intro conjI allI impI)
        apply (rule o)
       apply (rule len)
      apply (rule gs)
     apply (rule cm)
    apply (erule entry)
    done
qed

theorem merge_keeps_core_fields_witness:
  "merge_doc
     (JDict [(''name'', JStr ''donor''),
             (''sequences'', JList [
                JDict [(''protein'', JDict [(''id'', JStr ''A''), (''sequence'', JStr ''MKX''),
                                            (''unpairedMsa'', JStr ''u''), (''pairedMsa'', JStr ''p'')])],
                JDict [(''protein'', JDict [(''id'', JStr ''B''), (''sequence'', JStr ''QQ'')])]]),
             (''version'', JInt 2)])
     (JDict [(''name'', JStr ''job''),
             (''sequences'', JList [
                JDict [(''protein'', JDict [(''id'', JStr ''A''), (''sequence'', JStr ''MK''),
                                            (''modifications'', JList [])])],
                JDict [(''ligand'', JDict [(''id'', JStr ''L'')])]])])
   = Inr (JDict [(''name'', JStr ''job''),
             (''sequences'', JList [
                JDict [(''protein'', JDict [(''id'', JStr ''A''), (''sequence'', JStr ''MK''),
                                            (''modifications'', JList []),
                                            (''unpairedMsa'', JStr ''u''), (''pairedMsa'', JStr ''p'')])],
                JDict [(''ligand'', JDict [(''id'', JStr ''L'')])]]),
             (''version'', JInt 2)])
   \<and> wf_json
     (JDict [(''name'', JStr ''donor''),
             (''sequences'', JList [
                JDict [(''protein'', JDict [(''id'', JStr ''A''), (''sequence'', JStr ''MKX''),
                                            (''unpairedMsa'', JStr ''u''), (''pairedMsa'', JStr ''p'')])],
                JDict [(''protein'', JDict [(''id'', JStr ''B''), (''sequence'', JStr ''QQ'')])]]),
             (''version'', JInt 2)])
   \<and> (\<exists>ents'. dict_get (JDict [(''name'', JStr ''job''),
             (''sequences'', JList [
                JDict [(''protein'', JDict [(''id'', JStr ''A''), (''sequence'', JStr ''MK''),
                                            (''modifications'', JList []),
                                            (''unpairedMsa'', JStr ''u''), (''pairedMsa'', JStr ''p'')])],
                JDict [(''ligand'', JDict [(''id'', JStr ''L'')])]]),
             (''version'', JInt 2)]) ''sequences'' = Some (JList ents')
          \<and> length ents' = 2)"
proof -
  let ?s = "JDict [(''name'', JStr ''donor''),
             (''sequences'', JList [
                JDict [(''protein'', JDict [(''id'', JStr ''A''), (''sequence'', JStr ''MKX''),
                                            (''unpairedMsa'', JStr ''u''), (''pairedMsa'', JStr ''p'')])],
                JDict [(''protein'', JDict [(''id'', JStr ''B''), (''sequence'', JStr ''QQ'')])]]),
             (''version'', JInt 2)]"
  let ?ents = "[JDict [(''protein'', JDict [(''id'', JStr ''A''), (''sequence'', JStr ''MK''),
                                            (''modifications'', JList [])])],
                JDict [(''ligand'', JDict [(''id'', JStr ''L'')])]]"
  let ?d = "JDict [(''name'', JStr ''job''), (''sequences'', JList ?ents)]"
  let ?out = "JDict [(''name'', JStr ''job''),
             (''sequences'', JList [
                JDict [(''protein'', JDict [(''id'', JStr ''A''), (''sequence'', JStr ''MK''),
                                            (''modifications'', JList []),
                                            (''unpairedMsa'', JStr ''u''), (''pairedMsa'', JStr ''p'')])],
                JDict [(''ligand'', JDict [(''id'', JStr ''L'')])]]),
             (''version'', JInt 2)]"
  have h1: "merge_doc ?s ?d = Inr ?out" by code_simp
  have h2: "wf_json ?s" by code_simp
  have h3: "dict_get ?d ''sequences'' = Some (JList ?ents)" by simp
  from merge_keeps_core_fields [OF h1 h2 h3]
  obtain ents' where "dict_get ?out ''sequences'' = Some (JList ents')" "length ents' = length ?ents"
    by blast
  then have "\<exists>ents'. dict_get ?out ''sequences'' = Some (JList ents') \<and> length ents' = 2"
    by (intro exI [of _ ents']) simp
  with h1 h2 show ?thesis by (intro conjI)
qed

section \<open>Properties of the canonicalisation\<close>

text \<open>
  C8 (the code at a failing input). The donor chain carries \<^verbatim>\<open>templateIndices\<close> \<open>[0, 1]\<close>.
  In the text that \<open>merge_json\<close> returns, \<open>collapse\<close> has removed the blanks between the
  brackets of that field and left the three newline characters: its \<^verbatim>\<open>replace("\\n","")\<close>
  looks for a backslash and the letter n, which the bracketed value never holds.
\<close>

theorem collapse_keeps_newlines:
  \<open>merge_json
     (Doc (JDict [(''name'', JStr ''donor''), (''sequences'', JList [
        JDict [(''protein'', JDict [(''id'', JStr ''A''), (''sequence'', JStr ''MK''),
           (''templates'', JList [JDict [(''templateIndices'', JList [JInt 0, JInt 1])]])])]])]))
     (Doc (JDict [(''name'', JStr ''job''), (''sequences'', JList [
        JDict [(''protein'', JDict [(''id'', JStr ''A''), (''sequence'', JStr ''MK'')])]])]))
   = Inr ''{\<newline>  "name": "job",\<newline>  "sequences": [\<newline>    {\<newline>      "protein": {\<newline>        "id": "A",\<newline>        "sequence": "MK",\<newline>        "templates": [\<newline>          {\<newline>            "templateIndices": [\<newline>0,\<newline>1\<newline>]\<newline>          }\<newline>        ]\<newline>      }\<newline>    }\<newline>  ],\<newline>  "version": 1\<newline>}''
   \<and> collapse ''"templateIndices": [\<newline>  0,\<newline>  1\<newline>]'' = ''"templateIndices": [\<newline>0,\<newline>1\<newline>]''\<close>
  by code_simp

section \<open>The validator on merge results\<close>

lemma py_eq_refl: "wf_json x \<Longrightarrow> py_eq x x"
proof (induction x)
  case (JList xs)
  have "list_all (\<lambda>(x, y). py_eq x y) (zip xs xs)"
    using JList by (auto simp: list_all_iff zip_same)
  then show ?case by simp
next
  case (JDict kvs)
  have "case map_of kvs k of None \<Rightarrow> False | Some w \<Rightarrow> py_eq v w" if kv: "(k, v) \<in> set kvs" for k v
  proof -
    have "map_of kvs k = Some v" using JDict.prems kv by simp
    moreover have "py_eq v v"
      using JDict.IH [of "(k, v)" v] JDict.prems kv by (auto simp: list_all_iff)
    ultimately show ?thesis by simp
  qed
  then show ?case by (auto simp: list_all_iff)
qed (auto split: if_splits)

lemma merge_entry_ligand:
  assumes "merge_entry sc e = Inr e'"
  shows "has_key ''ligand'' e' = has_key ''ligand'' e \<and> dict_get e' ''ligand'' = dict_get e ''ligand''"
proof -
  from merge_entry_cases [OF assms] show ?thesis
  proof
    assume "dict_get e ''protein'' = None \<and> e' = e"
    then show ?thesis by simp
  next
    assume "\<exists>entry protein cid donor_fields.
             e = JDict entry \<and> map_of entry ''protein'' = Some (JDict protein)
           \<and> map_of protein ''id'' = Some cid \<and> key_get sc cid = Some (JDict donor_fields)
           \<and> e' = JDict (dict_set entry ''protein'' (JDict (copy_fields donor_fields protein)))"
    then obtain entry v where e: "e = JDict entry" and p: "map_of entry ''protein'' \<noteq> None"
      and e': "e' = JDict (dict_set entry ''protein'' v)" by auto
    have "''protein'' \<in> set (map fst entry)" using p by (simp add: map_of_eq_None_iff)
    then have "map fst (dict_set entry ''protein'' v) = map fst entry"
      by (simp add: keys_dict_set)
    then show ?thesis using e e' by (simp add: map_of_dict_set)
  qed
qed

lemma find_all2:
  assumes "list_all2 R xs ys" and "\<And>x y. R x y \<Longrightarrow> P y = P x \<and> f y = f x"
  shows "(case List.find P ys of Some el \<Rightarrow> f el | None \<Rightarrow> None)
       = (case List.find P xs of Some el \<Rightarrow> f el | None \<Rightarrow> None)"
  using assms by (induction rule: list_all2_induct) auto

lemma filter_all2_length:
  assumes "list_all2 R xs ys" and "\<And>x y. R x y \<Longrightarrow> P y = P x"
  shows "length (filter P ys) = length (filter P xs)"
  using assms by (induction rule: list_all2_induct) auto

lemma has_key_dict_get: "has_key k el \<Longrightarrow> \<exists>v. dict_get el k = Some v"
proof (cases el)
  case (JDict kvs)
  assume "has_key k el"
  then have "map_of kvs k \<noteq> None" using JDict by (simp add: map_of_eq_None_iff)
  then show ?thesis using JDict by auto
qed auto

lemma first_lig_Some:
  assumes "dict_get o_json ''sequences'' = Some (JList seqs)" "filter (has_key ''ligand'') seqs \<noteq> []"
  shows "\<exists>el v. el \<in> set seqs \<and> dict_get el ''ligand'' = Some v \<and> first_lig o_json = Some v"
proof -
  obtain el where f: "List.find (has_key ''ligand'') seqs = Some el"
    using assms(2) by (cases "List.find (has_key ''ligand'') seqs") (auto simp: find_None_iff filter_empty_conv)
  then have el: "el \<in> set seqs" and hk: "has_key ''ligand'' el"
    by (auto simp: find_Some_iff)
  obtain v where v: "dict_get el ''ligand'' = Some v"
    using has_key_dict_get [OF hk] by blast
  then show ?thesis using assms(1) f el by (auto simp: first_lig_def)
qed

lemma ligand_of_first: "first_lig o_json = Some v \<Longrightarrow> ligand_of o_json = v"
  by (simp add: ligand_of_def find_ligand_value_def)

lemma wf_json_list_mem: "wf_json (JList xs) \<Longrightarrow> x \<in> set xs \<Longrightarrow> wf_json x"
  by (simp add: list_all_iff)

lemma wf_json_dict_get: "wf_json x \<Longrightarrow> dict_get x k = Some v \<Longrightarrow> wf_json v"
  by (cases x) (auto dest: wf_json_map_of simp del: wf_json.simps)

lemma has_paired_dict_mem: "map_of kvs k = Some v \<Longrightarrow> has_paired v \<Longrightarrow> has_paired (JDict kvs)"
  by (auto simp: list_ex_iff dest!: map_of_SomeD)

lemma has_paired_list_mem: "x \<in> set xs \<Longrightarrow> has_paired x \<Longrightarrow> has_paired (JList xs)"
  by (auto simp: list_ex_iff)

lemma has_paired_pairedMsa: "''pairedMsa'' \<in> set (map fst kvs) \<Longrightarrow> has_paired (JDict kvs)"
  by (auto simp: list_ex_iff is_paired_key_def DROP_EXACT_KEYS_def)

text \<open>
  C4 (amended). For every donor and every destination with distinct keys that \<open>merge_json\<close>
  accepts, the validator, checked against that destination, returns, and it accepts the
  merged document exactly when the merged document has a sequences list with exactly one
  protein entry and at least one ligand entry, the protein of that entry is a mapping with
  the field \<^verbatim>\<open>unpairedMsa\<close>, and no paired-alignment key occurs anywhere in the document.
  The name test and the ligand comparison never reject a merge result.
\<close>

theorem validator_on_merge_result:
  assumes m: "merge_doc s d = Inr out" and wf: "wf_json d"
  shows "output_is_complete out d =
           Inr (\<exists>seqs protein.
                  dict_get out ''sequences'' = Some (JList seqs)
                \<and> length (filter (has_key ''protein'') seqs) = 1
                \<and> filter (has_key ''ligand'') seqs \<noteq> []
                \<and> dict_get (hd (filter (has_key ''protein'') seqs)) ''protein'' = Some (JDict protein)
                \<and> ''unpairedMsa'' \<in> set (map fst protein)
                \<and> \<not> has_paired out)"
proof -
  from merge_doc_cases [OF m]
  obtain skv dkv s_seq d_seq sc ents ents' v where d: "d = JDict dkv"
    and ds: "map_of dkv ''sequences'' = Some d_seq"
    and it: "py_iter d_seq = Inr ents"
    and me: "merge_entries sc ents = Inr ents'"
    and out0: "out = JDict (dict_set (if is_list d_seq then dict_set dkv ''sequences'' (JList ents') else dkv)
                                    ''version'' v)"
    by blast
  define okv where
    "okv = dict_set (if is_list d_seq then dict_set dkv ''sequences'' (JList ents') else dkv) ''version'' v"
  have out: "out = JDict okv" using out0 by (simp add: okv_def)
  have nm: "get_or_none okv ''name'' = get_or_none dkv ''name''"
    by (simp add: okv_def get_or_none_def map_of_dict_set)
  have "wf_json (get_or_none dkv ''name'')"
  proof (cases "map_of dkv ''name''")
    case None
    then show ?thesis by (simp add: get_or_none_def)
  next
    case (Some nv)
    then have "wf_json nv" using wf d wf_json_map_of by blast
    then show ?thesis using Some by (simp add: get_or_none_def)
  qed
  then have name_ok: "py_eq (get_or_none okv ''name'') (get_or_none dkv ''name'')"
    using nm py_eq_refl by simp
  have oseq: "map_of okv ''sequences'' = Some (if is_list d_seq then JList ents' else d_seq)"
    using ds by (simp add: okv_def map_of_dict_set)
  define Q where
    "Q = (\<exists>seqs protein.
                  dict_get out ''sequences'' = Some (JList seqs)
                \<and> length (filter (has_key ''protein'') seqs) = 1
                \<and> filter (has_key ''ligand'') seqs \<noteq> []
                \<and> dict_get (hd (filter (has_key ''protein'') seqs)) ''protein'' = Some (JDict protein)
                \<and> ''unpairedMsa'' \<in> set (map fst protein)
                \<and> \<not> has_paired out)"
  have "output_is_complete out d = Inr Q"
  proof (cases "is_list d_seq")
    case False
    then have nl: "\<And>seqs. d_seq \<noteq> JList seqs" by auto
    have os: "map_of okv ''sequences'' = Some d_seq" using oseq False by simp
    have "output_is_complete out d = Inr False"
      using out d name_ok os False by (cases d_seq) (simp_all add: output_is_complete_def)
    moreover have "\<not> Q" using nl out os by (simp add: Q_def)
    ultimately show ?thesis by simp
  next
    case True
    then obtain ents0 where dseq: "d_seq = JList ents0" by (cases d_seq) auto
    then have ents: "ents = ents0" using it by simp
    have os: "map_of okv ''sequences'' = Some (JList ents')" using oseq True by simp
    have all2: "list_all2 (\<lambda>e e'. merge_entry sc e = Inr e') ents ents'"
      by (rule merge_entries_all2 [OF me])
    define prot where "prot = filter (has_key ''protein'') ents'"
    define lig where "lig = filter (has_key ''ligand'') ents'"
    have rhs: "Q = (length prot = 1 \<and> lig \<noteq> []
                    \<and> (\<exists>protein. dict_get (hd prot) ''protein'' = Some (JDict protein)
                                  \<and> ''unpairedMsa'' \<in> set (map fst protein))
                    \<and> \<not> has_paired out)"
      using out os by (auto simp: Q_def prot_def lig_def)
    have ligok: "\<not> (ligand_of d \<noteq> JNull \<and> ligand_of out \<noteq> JNull \<and> \<not> py_eq (ligand_of d) (ligand_of out))"
      if l: "lig \<noteq> []"
    proof -
      have so: "dict_get out ''sequences'' = Some (JList ents')" using out os by simp
      from first_lig_Some [OF so] l obtain el' w where "first_lig out = Some w"
        by (auto simp: lig_def)
      moreover have "first_lig out = first_lig d"
        using find_all2 [OF all2, of "has_key ''ligand''" "\<lambda>el. dict_get el ''ligand''"]
              merge_entry_ligand so d ds dseq ents
        by (simp add: first_lig_def)
      ultimately have fo: "first_lig out = Some w" and fd: "first_lig d = Some w" by simp_all
      have sd: "dict_get d ''sequences'' = Some (JList ents)" using d ds dseq ents by simp
      have "filter (has_key ''ligand'') ents \<noteq> []"
      proof
        assume "filter (has_key ''ligand'') ents = []"
        then have "List.find (has_key ''ligand'') ents = None"
          by (simp add: find_None_iff filter_empty_conv)
        then show False using fd sd by (simp add: first_lig_def)
      qed
      from first_lig_Some [OF sd this] fd obtain el where "el \<in> set ents" "dict_get el ''ligand'' = Some w"
        by auto
      moreover have "wf_json (JList ents)" using wf sd wf_json_dict_get by blast
      ultimately have "wf_json w" using wf_json_list_mem wf_json_dict_get by blast
      then have "py_eq w w" by (rule py_eq_refl)
      then show ?thesis using ligand_of_first [OF fo] ligand_of_first [OF fd] by simp
    qed
    have pm: "has_paired out"
      if l1: "length prot = 1" and dp: "dict_get (hd prot) ''protein'' = Some (JDict protein)"
         and pk: "''pairedMsa'' \<in> set (map fst protein)" for protein
    proof -
      have "prot \<noteq> []" using l1 by auto
      then have "hd prot \<in> set prot" by simp
      then have mem: "hd prot \<in> set ents'" by (simp add: prot_def)
      obtain ekv where e: "hd prot = JDict ekv" and ep: "map_of ekv ''protein'' = Some (JDict protein)"
        using dp by (cases "hd prot") auto
      have "has_paired (JDict protein)" using pk by (rule has_paired_pairedMsa)
      then have "has_paired (hd prot)" using e ep has_paired_dict_mem by simp
      then have "has_paired (JList ents')" using mem has_paired_list_mem by blast
      then show ?thesis using out os has_paired_dict_mem by blast
    qed
    show ?thesis
    proof (cases "length prot \<noteq> 1 \<or> length lig < 1")
      case True
      then have "output_is_complete out d = Inr False"
        using out d name_ok os
        by (simp add: output_is_complete_def prot_def [symmetric] lig_def [symmetric] Let_def)
      moreover have "\<not> Q" using True rhs by auto
      ultimately show ?thesis by simp
    next
      case False
      then have l1: "length prot = 1" and l2: "lig \<noteq> []" by auto
      note defs = output_is_complete_def prot_def [symmetric] lig_def [symmetric] Let_def
      show ?thesis
      proof (cases "dict_get (hd prot) ''protein''")
        case None
        then have "output_is_complete out d = Inr False"
          using out d name_ok os l1 l2 by (simp add: defs)
        moreover have "\<not> Q" using None rhs by simp
        ultimately show ?thesis by simp
      next
        case (Some p)
        show ?thesis
        proof (cases "is_dict p")
          case False
          then have "output_is_complete out d = Inr False"
            using out d name_ok os l1 l2 Some by (cases p) (simp_all add: defs)
          moreover have "\<not> Q" using False Some rhs by auto
          ultimately show ?thesis by simp
        next
          case True
          then obtain protein where p: "p = JDict protein" by (cases p) auto
          show ?thesis
          proof (cases "''unpairedMsa'' \<in> set (map fst protein)")
            case False
            then have "output_is_complete out d = Inr False"
              using out d name_ok os l1 l2 Some p by (simp add: defs)
            moreover have "\<not> Q" using False Some p rhs by auto
            ultimately show ?thesis by simp
          next
            case unp: True
            show ?thesis
            proof (cases "''pairedMsa'' \<in> set (map fst protein)")
              case True
              then have "output_is_complete out d = Inr False"
                using out d name_ok os l1 l2 Some p unp by (simp add: defs)
              moreover have "has_paired out" using pm [OF l1 _ True] Some p by simp
              then have "\<not> Q" using rhs by simp
              ultimately show ?thesis by simp
            next
              case npm: False
              show ?thesis
              proof (cases "has_paired out")
                case True
                then have "output_is_complete out d = Inr False"
                  using out d name_ok os l1 l2 Some p unp npm by (simp add: defs)
                moreover have "\<not> Q" using True rhs by simp
                ultimately show ?thesis by simp
              next
                case False
                then have "output_is_complete out d = Inr True"
                  using out d name_ok os l1 l2 Some p unp npm ligok [OF l2] by (simp add: defs)
                moreover have "Q" using False Some p unp l1 l2 rhs by simp
                ultimately show ?thesis by simp
              qed
            qed
          qed
        qed
      qed
    qed
  qed
  then show ?thesis by (simp add: Q_def)
qed

theorem validator_on_merge_result_witness:
  "merge_doc
     (JDict [(''name'', JStr ''donor''),
             (''sequences'', JList [
                JDict [(''protein'', JDict [(''id'', JStr ''A''), (''sequence'', JStr ''MK''),
                                            (''unpairedMsa'', JStr ''u'')])],
                JDict [(''ligand'', JDict [(''id'', JStr ''X'')])]])])
     (JDict [(''name'', JStr ''job''),
             (''sequences'', JList [
                JDict [(''protein'', JDict [(''id'', JStr ''A''), (''sequence'', JStr ''MK'')])],
                JDict [(''ligand'', JDict [(''id'', JStr ''L'')])]])])
   = Inr (JDict [(''name'', JStr ''job''),
             (''sequences'', JList [
                JDict [(''protein'', JDict [(''id'', JStr ''A''), (''sequence'', JStr ''MK''),
                                            (''unpairedMsa'', JStr ''u'')])],
                JDict [(''ligand'', JDict [(''id'', JStr ''L'')])]]),
             (''version'', JInt 1)])
   \<and> wf_json
     (JDict [(''name'', JStr ''job''),
             (''sequences'', JList [
                JDict [(''protein'', JDict [(''id'', JStr ''A''), (''sequence'', JStr ''MK'')])],
                JDict [(''ligand'', JDict [(''id'', JStr ''L'')])]])])
   \<and> output_is_complete
       (JDict [(''name'', JStr ''job''),
             (''sequences'', JList [
                JDict [(''protein'', JDict [(''id'', JStr ''A''), (''sequence'', JStr ''MK''),
                                            (''unpairedMsa'', JStr ''u'')])],
                JDict [(''ligand'', JDict [(''id'', JStr ''L'')])]]),
             (''version'', JInt 1)])
       (JDict [(''name'', JStr ''job''),
             (''sequences'', JList [
                JDict [(''protein'', JDict [(''id'', JStr ''A''), (''sequence'', JStr ''MK'')])],
                JDict [(''ligand'', JDict [(''id'', JStr ''L'')])]])])
     = Inr True"
proof -
  let ?s = "JDict [(''name'', JStr ''donor''),
             (''sequences'', JList [
                JDict [(''protein'', JDict [(''id'', JStr ''A''), (''sequence'', JStr ''MK''),
                                            (''unpairedMsa'', JStr ''u'')])],
                JDict [(''ligand'', JDict [(''id'', JStr ''X'')])]])]"
  let ?d = "JDict [(''name'', JStr ''job''),
             (''sequences'', JList [
                JDict [(''protein'', JDict [(''id'', JStr ''A''), (''sequence'', JStr ''MK'')])],
                JDict [(''ligand'', JDict [(''id'', JStr ''L'')])]])]"
  let ?seqs = "[JDict [(''protein'', JDict [(''id'', JStr ''A''), (''sequence'', JStr ''MK''),
                                            (''unpairedMsa'', JStr ''u'')])],
                JDict [(''ligand'', JDict [(''id'', JStr ''L'')])]]"
  let ?out = "JDict [(''name'', JStr ''job''), (''sequences'', JList ?seqs), (''version'', JInt 1)]"
  have h1: "merge_doc ?s ?d = Inr ?out" by code_simp
  have h2: "wf_json ?d" by code_simp
  have np: "\<not> has_paired ?out" by code_simp
  have "\<exists>seqs protein.
                  dict_get ?out ''sequences'' = Some (JList seqs)
                \<and> length (filter (has_key ''protein'') seqs) = 1
                \<and> filter (has_key ''ligand'') seqs \<noteq> []
                \<and> dict_get (hd (filter (has_key ''protein'') seqs)) ''protein'' = Some (JDict protein)
                \<and> ''unpairedMsa'' \<in> set (map fst protein)
                \<and> \<not> has_paired ?out"
    apply (rule exI [of _ ?seqs])
    apply (rule exI [of _ "[(''id'', JStr ''A''), (''sequence'', JStr ''MK''), (''unpairedMsa'', JStr ''u'')]"])
    using np apply simp
    done
  then have "output_is_complete ?out ?d = Inr True"
    using validator_on_merge_result [OF h1 h2] by simp
  with h1 h2 show ?thesis by (intro conjI)
qed

text \<open>
  C4 (counterexample). Two merges that \<open>merge_json\<close> accepts and the validator rejects. In the
  first the destination has one protein and one ligand and the donor chain carries
  \<^verbatim>\<open>pairedMsa\<close>, which the merge copies as it copies every field that is not a core field.
  In the second the destination has the two protein chains of a pair job.
\<close>

theorem merge_result_rejected:
  "merge_doc
     (JDict [(''name'', JStr ''donor''),
             (''sequences'', JList [
                JDict [(''protein'', JDict [(''id'', JStr ''A''), (''sequence'', JStr ''MK''),
                                            (''unpairedMsa'', JStr ''u''), (''pairedMsa'', JStr ''p'')])]])])
     (JDict [(''name'', JStr ''job''),
             (''sequences'', JList [
                JDict [(''protein'', JDict [(''id'', JStr ''A''), (''sequence'', JStr ''MK'')])],
                JDict [(''ligand'', JDict [(''id'', JStr ''L'')])]])])
   = Inr (JDict [(''name'', JStr ''job''),
             (''sequences'', JList [
                JDict [(''protein'', JDict [(''id'', JStr ''A''), (''sequence'', JStr ''MK''),
                                            (''unpairedMsa'', JStr ''u''), (''pairedMsa'', JStr ''p'')])],
                JDict [(''ligand'', JDict [(''id'', JStr ''L'')])]]),
             (''version'', JInt 1)])
   \<and> output_is_complete
       (JDict [(''name'', JStr ''job''),
             (''sequences'', JList [
                JDict [(''protein'', JDict [(''id'', JStr ''A''), (''sequence'', JStr ''MK''),
                                            (''unpairedMsa'', JStr ''u''), (''pairedMsa'', JStr ''p'')])],
                JDict [(''ligand'', JDict [(''id'', JStr ''L'')])]]),
             (''version'', JInt 1)])
       (JDict [(''name'', JStr ''job''),
             (''sequences'', JList [
                JDict [(''protein'', JDict [(''id'', JStr ''A''), (''sequence'', JStr ''MK'')])],
                JDict [(''ligand'', JDict [(''id'', JStr ''L'')])]])])
     = Inr False
   \<and> merge_doc
     (JDict [(''name'', JStr ''donor''),
             (''sequences'', JList [
                JDict [(''protein'', JDict [(''id'', JStr ''A''), (''sequence'', JStr ''MK''), (''unpairedMsa'', JStr ''u'')])],
                JDict [(''protein'', JDict [(''id'', JStr ''B''), (''sequence'', JStr ''QQ''), (''unpairedMsa'', JStr ''w'')])]])])
     (JDict [(''name'', JStr ''job''),
             (''sequences'', JList [
                JDict [(''protein'', JDict [(''id'', JStr ''A''), (''sequence'', JStr ''MK'')])],
                JDict [(''protein'', JDict [(''id'', JStr ''B''), (''sequence'', JStr ''QQ'')])],
                JDict [(''ligand'', JDict [(''id'', JStr ''L'')])]])])
   = Inr (JDict [(''name'', JStr ''job''),
             (''sequences'', JList [
                JDict [(''protein'', JDict [(''id'', JStr ''A''), (''sequence'', JStr ''MK''), (''unpairedMsa'', JStr ''u'')])],
                JDict [(''protein'', JDict [(''id'', JStr ''B''), (''sequence'', JStr ''QQ''), (''unpairedMsa'', JStr ''w'')])],
                JDict [(''ligand'', JDict [(''id'', JStr ''L'')])]]),
             (''version'', JInt 1)])
   \<and> output_is_complete
       (JDict [(''name'', JStr ''job''),
             (''sequences'', JList [
                JDict [(''protein'', JDict [(''id'', JStr ''A''), (''sequence'', JStr ''MK''), (''unpairedMsa'', JStr ''u'')])],
                JDict [(''protein'', JDict [(''id'', JStr ''B''), (''sequence'', JStr ''QQ''), (''unpairedMsa'', JStr ''w'')])],
                JDict [(''ligand'', JDict [(''id'', JStr ''L'')])]]),
             (''version'', JInt 1)])
       (JDict [(''name'', JStr ''job''),
             (''sequences'', JList [
                JDict [(''protein'', JDict [(''id'', JStr ''A''), (''sequence'', JStr ''MK'')])],
                JDict [(''protein'', JDict [(''id'', JStr ''B''), (''sequence'', JStr ''QQ'')])],
                JDict [(''ligand'', JDict [(''id'', JStr ''L'')])]])])
     = Inr False"
  by code_simp

section \<open>Writing, validating and resuming\<close>

lemma safe_write_json_final:
  "safe_write_json obj fs = fs\<lparr>out_file := Some (Doc obj), tmp_file := None\<rparr>"
  by (simp add: safe_write_json_def safe_write_json_steps_def)

lemma regenerate_writes:
  assumes "single_chain_document dest_input donor_with_msa = Inr out_json"
  shows "regenerate False dest_input donor_with_msa dest_json fs =
           (if complete_file (Doc out_json) dest_json then OK else ERROR_post_write_validation_failed,
            fs\<lparr>out_file := Some (Doc out_json), tmp_file := None\<rparr>)"
  using assms by (simp add: regenerate_def make_single_chain_with_msa_def safe_write_json_final)

text \<open>
  C2 (counterexample). The donor is a pair job without ligand entry. The document produced
  for the destination has no ligand entry either, so \<open>output_is_complete\<close> rejects it; it
  is at the canonical path all the same, because \<open>safe_write_json\<close> renames the temporary
  file before the validation runs, and the job is reported as an error.
\<close>

theorem invalid_document_at_canonical_path:
  "process_job False
     (Doc (JDict [(''name'', JStr ''A-lig''), (''sequences'', JList [
         JDict [(''protein'', JDict [(''id'', JStr ''A''), (''sequence'', JStr ''MK'')])],
         JDict [(''ligand'', JDict [(''id'', JStr ''L'')])]])]))
     (Doc (JDict [(''name'', JStr ''A-B''), (''sequences'', JList [
         JDict [(''protein'', JDict [(''id'', JStr ''A''), (''sequence'', JStr ''MK''),
                                     (''unpairedMsa'', JStr ''u''), (''pairedMsa'', JStr ''p'')])],
         JDict [(''protein'', JDict [(''id'', JStr ''B''), (''sequence'', JStr ''QQ''),
                                     (''unpairedMsa'', JStr ''w''), (''pairedMsa'', JStr ''p'')])]])]))
     \<lparr>out_file = None, tmp_file = None\<rparr>
   = (ERROR_post_write_validation_failed,
      \<lparr>out_file = Some (Doc (JDict [(''name'', JStr ''A-lig''), (''sequences'', JList [
           JDict [(''protein'', JDict [(''id'', JStr ''A''), (''sequence'', JStr ''MK''),
                                       (''unpairedMsa'', JStr ''u'')])]])])),
       tmp_file = None\<rparr>)
   \<and> output_is_complete
       (JDict [(''name'', JStr ''A-lig''), (''sequences'', JList [
           JDict [(''protein'', JDict [(''id'', JStr ''A''), (''sequence'', JStr ''MK''),
                                       (''unpairedMsa'', JStr ''u'')])]])])
       (JDict [(''name'', JStr ''A-lig''), (''sequences'', JList [
         JDict [(''protein'', JDict [(''id'', JStr ''A''), (''sequence'', JStr ''MK'')])],
         JDict [(''ligand'', JDict [(''id'', JStr ''L'')])]])])
     = Inr False"
  by code_simp

text \<open>
  C2 (amended). In the batch extraction script a produced document is written in full to
  the temporary file, which then replaces the canonical file: in every state of
  \<open>safe_write_json\<close> the canonical file is the old one or the whole new document, never a
  part of it. The replacement is unconditional and \<open>output_is_complete\<close> runs after it:
  a job with no output yet ends with the produced document at the canonical path whether
  the check accepts it or not, and is reported \<open>OK\<close> or as a failed validation accordingly.
  \<open>finalize_or_fix_partial\<close> promotes a leftover temporary file if it parses and
  satisfies \<open>output_is_complete\<close> and deletes it otherwise. The batch re-use script writes
  the merged text to the canonical path directly.
\<close>

theorem write_then_validate:
  "(\<forall>st \<in> set (safe_write_json_steps obj fs).
       out_file st = out_file fs \<or> out_file st = Some (Doc obj))
   \<and> out_file (safe_write_json obj fs) = Some (Doc obj)
   \<and> tmp_file (safe_write_json obj fs) = None
   \<and> (read_json dest_input = Inr dest_json
        \<and> single_chain_document dest_input donor_with_msa = Inr out_json \<longrightarrow>
        process_job False dest_input donor_with_msa \<lparr>out_file = None, tmp_file = None\<rparr>
          = (if output_is_complete out_json dest_json = Inr True
             then OK else ERROR_post_write_validation_failed,
             \<lparr>out_file = Some (Doc out_json), tmp_file = None\<rparr>))
   \<and> (tmp_file fs = Some t \<longrightarrow>
        finalize_or_fix_partial fs dest_json
          = (if complete_file t dest_json
             then (True, fs\<lparr>out_file := Some t, tmp_file := None\<rparr>)
             else ((case out_file fs of Some f \<Rightarrow> complete_file f dest_json | None \<Rightarrow> False),
                   fs\<lparr>tmp_file := None\<rparr>)))
   \<and> (parse_entries job = Inr (e1, e2) \<and> job_dir env
        \<and> is_single_protein_ligand (fresh env) = Inr False \<and> \<not> out_dir env
        \<and> cands env = c # cs \<and> merge_json c (fresh env) = Inr merged \<longrightarrow>
        row_step False (job, env) st
          = Inr (st\<lparr>written := written st @ [(job, merged)],
                   stats_copy := stats_copy st + 1,
                   base_done := insert (base_key e1 e2) (base_done st)\<rparr>))"
proof -
  have 1: "\<forall>st \<in> set (safe_write_json_steps obj fs).
             out_file st = out_file fs \<or> out_file st = Some (Doc obj)"
    by (simp add: safe_write_json_steps_def)
  have 2: "out_file (safe_write_json obj fs) = Some (Doc obj)"
    and 3: "tmp_file (safe_write_json obj fs) = None"
    by (simp_all add: safe_write_json_final)
  have 4: "process_job False dest_input donor_with_msa \<lparr>out_file = None, tmp_file = None\<rparr>
          = (if output_is_complete out_json dest_json = Inr True
             then OK else ERROR_post_write_validation_failed,
             \<lparr>out_file = Some (Doc out_json), tmp_file = None\<rparr>)"
    if "read_json dest_input = Inr dest_json"
       "single_chain_document dest_input donor_with_msa = Inr out_json"
  proof -
    have "complete_file (Doc out_json) dest_json = (output_is_complete out_json dest_json = Inr True)"
      by (cases "output_is_complete out_json dest_json") (auto simp: complete_file_def)
    then show ?thesis
      using that regenerate_writes [OF that(2), of dest_json "\<lparr>out_file = None, tmp_file = None\<rparr>"]
      by (simp add: process_job_def)
  qed
  have 5: "finalize_or_fix_partial fs dest_json
          = (if complete_file t dest_json
             then (True, fs\<lparr>out_file := Some t, tmp_file := None\<rparr>)
             else ((case out_file fs of Some f \<Rightarrow> complete_file f dest_json | None \<Rightarrow> False),
                   fs\<lparr>tmp_file := None\<rparr>))"
    if "tmp_file fs = Some t"
    using that by (simp add: finalize_or_fix_partial_def split: option.splits)
  have 6: "row_step False (job, env) st
          = Inr (st\<lparr>written := written st @ [(job, merged)],
                   stats_copy := stats_copy st + 1,
                   base_done := insert (base_key e1 e2) (base_done st)\<rparr>)"
    if "parse_entries job = Inr (e1, e2)" "job_dir env"
       "is_single_protein_ligand (fresh env) = Inr False" "\<not> out_dir env"
       "cands env = c # cs" "merge_json c (fresh env) = Inr merged"
    using that by (simp add: row_step_def)
  show ?thesis using 1 2 3 4 5 6 by blast
qed

theorem write_then_validate_witness:
  "read_json (Doc (JDict [(''name'', JStr ''A-lig''), (''sequences'', JList [
         JDict [(''protein'', JDict [(''id'', JStr ''A''), (''sequence'', JStr ''MK'')])],
         JDict [(''ligand'', JDict [(''id'', JStr ''L'')])]])]))
     = Inr (JDict [(''name'', JStr ''A-lig''), (''sequences'', JList [
         JDict [(''protein'', JDict [(''id'', JStr ''A''), (''sequence'', JStr ''MK'')])],
         JDict [(''ligand'', JDict [(''id'', JStr ''L'')])]])])
   \<and> single_chain_document
       (Doc (JDict [(''name'', JStr ''A-lig''), (''sequences'', JList [
         JDict [(''protein'', JDict [(''id'', JStr ''A''), (''sequence'', JStr ''MK'')])],
         JDict [(''ligand'', JDict [(''id'', JStr ''L'')])]])]))
       (Doc (JDict [(''name'', JStr ''A-B''), (''sequences'', JList [
         JDict [(''protein'', JDict [(''id'', JStr ''A''), (''sequence'', JStr ''MK''),
                                     (''unpairedMsa'', JStr ''u''), (''pairedMsa'', JStr ''p'')])],
         JDict [(''protein'', JDict [(''id'', JStr ''B''), (''sequence'', JStr ''QQ''),
                                     (''unpairedMsa'', JStr ''w''), (''pairedMsa'', JStr ''p'')])],
         JDict [(''ligand'', JDict [(''id'', JStr ''X'')])]])]))
     = Inr (JDict [(''name'', JStr ''A-lig''), (''sequences'', JList [
         JDict [(''protein'', JDict [(''id'', JStr ''A''), (''sequence'', JStr ''MK''),
                                     (''unpairedMsa'', JStr ''u'')])],
         JDict [(''ligand'', JDict [(''id'', JStr ''L'')])]])])
   \<and> process_job False
       (Doc (JDict [(''name'', JStr ''A-lig''), (''sequences'', JList [
         JDict [(''protein'', JDict [(''id'', JStr ''A''), (''sequence'', JStr ''MK'')])],
         JDict [(''ligand'', JDict [(''id'', JStr ''L'')])]])]))
       (Doc (JDict [(''name'', JStr ''A-B''), (''sequences'', JList [
         JDict [(''protein'', JDict [(''id'', JStr ''A''), (''sequence'', JStr ''MK''),
                                     (''unpairedMsa'', JStr ''u''), (''pairedMsa'', JStr ''p'')])],
         JDict [(''protein'', JDict [(''id'', JStr ''B''), (''sequence'', JStr ''QQ''),
                                     (''unpairedMsa'', JStr ''w''), (''pairedMsa'', JStr ''p'')])],
         JDict [(''ligand'', JDict [(''id'', JStr ''X'')])]])]))
       \<lparr>out_file = None, tmp_file = None\<rparr>
     = (OK, \<lparr>out_file = Some (Doc (JDict [(''name'', JStr ''A-lig''), (''sequences'', JList [
         JDict [(''protein'', JDict [(''id'', JStr ''A''), (''sequence'', JStr ''MK''),
                                     (''unpairedMsa'', JStr ''u'')])],
         JDict [(''ligand'', JDict [(''id'', JStr ''L'')])]])])), tmp_file = None\<rparr>)
   \<and> tmp_file \<lparr>out_file = Some Unreadable, tmp_file = Some Unreadable\<rparr> = Some Unreadable
   \<and> finalize_or_fix_partial \<lparr>out_file = Some Unreadable, tmp_file = Some Unreadable\<rparr>
        (JDict [(''name'', JStr ''A-lig'')])
     = (False, \<lparr>out_file = Some Unreadable, tmp_file = None\<rparr>)
   \<and> parse_entries ''A-B_K1'' = Inr (''A'', ''B'')
   \<and> is_single_protein_ligand (Doc (JDict [(''sequences'', JList [])])) = Inr False
   \<and> merge_json (Doc (JDict [(''sequences'', JList [])])) (Doc (JDict [(''sequences'', JList [])]))
     = Inr (collapse (dumps 0 (JDict [(''sequences'', JList []), (''version'', JInt 1)])))
   \<and> row_step False
        (''A-B_K1'', \<lparr>job_dir = True, out_dir = False, cands = [Doc (JDict [(''sequences'', JList [])])],
                      fresh = Doc (JDict [(''sequences'', JList [])])\<rparr>)
        initial_state
     = Inr (initial_state
             \<lparr>written := written initial_state
                  @ [(''A-B_K1'', collapse (dumps 0 (JDict [(''sequences'', JList []), (''version'', JInt 1)])))],
              stats_copy := stats_copy initial_state + 1,
              base_done := insert (base_key ''A'' ''B'') (base_done initial_state)\<rparr>)"
proof -
  let ?dest = "JDict [(''name'', JStr ''A-lig''), (''sequences'', JList [
         JDict [(''protein'', JDict [(''id'', JStr ''A''), (''sequence'', JStr ''MK'')])],
         JDict [(''ligand'', JDict [(''id'', JStr ''L'')])]])]"
  let ?donor = "JDict [(''name'', JStr ''A-B''), (''sequences'', JList [
         JDict [(''protein'', JDict [(''id'', JStr ''A''), (''sequence'', JStr ''MK''),
                                     (''unpairedMsa'', JStr ''u''), (''pairedMsa'', JStr ''p'')])],
         JDict [(''protein'', JDict [(''id'', JStr ''B''), (''sequence'', JStr ''QQ''),
                                     (''unpairedMsa'', JStr ''w''), (''pairedMsa'', JStr ''p'')])],
         JDict [(''ligand'', JDict [(''id'', JStr ''X'')])]])]"
  let ?out = "JDict [(''name'', JStr ''A-lig''), (''sequences'', JList [
         JDict [(''protein'', JDict [(''id'', JStr ''A''), (''sequence'', JStr ''MK''),
                                     (''unpairedMsa'', JStr ''u'')])],
         JDict [(''ligand'', JDict [(''id'', JStr ''L'')])]])]"
  let ?fs = "\<lparr>out_file = Some Unreadable, tmp_file = Some Unreadable\<rparr>"
  let ?e = "Doc (JDict [(''sequences'', JList [])])"
  let ?env = "\<lparr>job_dir = True, out_dir = False, cands = [?e], fresh = ?e\<rparr>"
  let ?merged = "collapse (dumps 0 (JDict [(''sequences'', JList []), (''version'', JInt 1)]))"
  have p1: "read_json (Doc ?dest) = Inr ?dest" by simp
  have p2: "single_chain_document (Doc ?dest) (Doc ?donor) = Inr ?out" by code_simp
  have p3: "tmp_file ?fs = Some Unreadable" by simp
  have p4: "parse_entries ''A-B_K1'' = Inr (''A'', ''B'')" by code_simp
  have p5: "is_single_protein_ligand ?e = Inr False" by code_simp
  have p6: "merge_json ?e ?e = Inr ?merged" by code_simp
  have c1: "output_is_complete ?out ?dest = Inr True" by code_simp
  have c2: "\<not> complete_file Unreadable (JDict [(''name'', JStr ''A-lig'')])"
    by (simp add: complete_file_def)
  note T = write_then_validate
    [where obj = ?out and fs = ?fs and dest_input = "Doc ?dest" and dest_json = ?dest
       and donor_with_msa = "Doc ?donor" and out_json = ?out and t = Unreadable
       and job = "''A-B_K1''" and ?e1.0 = "''A''" and ?e2.0 = "''B''" and env = ?env
       and c = ?e and cs = "[]" and merged = ?merged and st = initial_state]
  have r1: "process_job False (Doc ?dest) (Doc ?donor) \<lparr>out_file = None, tmp_file = None\<rparr>
            = (OK, \<lparr>out_file = Some (Doc ?out), tmp_file = None\<rparr>)"
    using T p1 p2 c1 by simp
  have r2: "finalize_or_fix_partial ?fs (JDict [(''name'', JStr ''A-lig'')])
            = (False, \<lparr>out_file = Some Unreadable, tmp_file = None\<rparr>)"
    using write_then_validate
      [where fs = ?fs and t = Unreadable and dest_json = "JDict [(''name'', JStr ''A-lig'')]"] p3 c2
    by simp
  have r3: "row_step False (''A-B_K1'', ?env) initial_state
     = Inr (initial_state
             \<lparr>written := written initial_state @ [(''A-B_K1'', ?merged)],
              stats_copy := stats_copy initial_state + 1,
              base_done := insert (base_key ''A'' ''B'') (base_done initial_state)\<rparr>)"
    using T p4 p5 p6 by simp
  show ?thesis using p1 p2 p3 p4 p5 p6 r1 r2 r3 by (intro conjI)
qed

end
